theory Spec2Isabelle
  imports Complex_Main "HOL-Library.Sublist"
begin

section \<open>The duplicate-detection service (src/services/deduplication.ts)\<close>

text \<open>
  The embedding follows the TypeScript source function by function and keeps its names.
  Modelling conventions:
  \<^item> a JavaScript string is a \<open>string\<close>; a character is one code unit in the range
    U+0000 .. U+00FF (Latin-1), which is what an Isabelle \<open>char\<close> holds;
  \<^item> a JavaScript number that the code computes from string lengths is an exact rational;
    \<open>None\<close> stands for \<open>undefined\<close>/\<open>NaN\<close>, the value that an out-of-range array read
    and every arithmetic operation on it produces;
  \<^item> the thresholds \<open>0.6\<close>, \<open>0.7\<close> and \<open>0.75\<close> are the rationals \<open>3/5\<close>, \<open>7/10\<close> and
    \<open>3/4\<close>. The source computes a quotient of two lengths as a double, which rounds it;
    the model keeps the quotient itself. The rounding is below the distance of any such
    quotient to a threshold for every string an engine can hold, and the quotients that
    meet a threshold round to the double of its literal, so the comparisons come out the
    same;
  \<^item> an exception is a value \<open>Inl e\<close> of a sum type, a normal return is \<open>Inr v\<close>.
\<close>

subsection \<open>String primitives of the host language\<close>

text \<open>\<open>String.prototype.toLowerCase\<close> on Latin-1 code units: \<open>A..Z\<close> and the accented
  capitals U+00C0 .. U+00DE (without the multiplication sign U+00D7) move up by 32.\<close>

definition lowerChar :: "char \<Rightarrow> char" where
  "lowerChar c =
     (let n = (of_char c :: nat)
      in if (65 \<le> n \<and> n \<le> 90) \<or> (192 \<le> n \<and> n \<le> 222 \<and> n \<noteq> 215)
         then char_of (n + 32) else c)"

definition toLowerCase :: "string \<Rightarrow> string" where
  "toLowerCase s = map lowerChar s"

text \<open>The white space and line terminators that \<open>String.prototype.trim\<close> strips, as far
  as they are Latin-1: TAB, LF, VT, FF, CR, SPACE and NBSP.\<close>

definition isWhiteSpace :: "char \<Rightarrow> bool" where
  "isWhiteSpace c = ((of_char c :: nat) \<in> {9, 10, 11, 12, 13, 32, 160})"

definition trim :: "string \<Rightarrow> string" where
  "trim s = rev (dropWhile isWhiteSpace (rev (dropWhile isWhiteSpace s)))"

text \<open>\<open>s.includes(t)\<close>: \<open>t\<close> occurs in \<open>s\<close> as a contiguous block.\<close>

definition includes_str :: "string \<Rightarrow> string \<Rightarrow> bool" where
  "includes_str s t = sublist t s"

text \<open>\<open>s.charAt(k)\<close> is the one-character string at position \<open>k\<close>, and the empty string
  when \<open>k\<close> is out of range.\<close>

definition charAt :: "string \<Rightarrow> nat \<Rightarrow> string" where
  "charAt s k = (if k < length s then [s ! k] else [])"

subsection \<open>The cost array of getLevenshteinDistance\<close>

text \<open>A cell of the array \<open>costs\<close> and the local variables \<open>lastValue\<close> and \<open>newValue\<close>
  hold a natural number, or \<open>undefined\<close>/\<open>NaN\<close> (\<open>None\<close>).\<close>

type_synonym cell = "nat option"

text \<open>Reading a JavaScript array out of range gives \<open>undefined\<close>.\<close>

definition arr_get :: "cell list \<Rightarrow> nat \<Rightarrow> cell" where
  "arr_get a j = (if j < length a then a ! j else None)"

text \<open>Writing at an index inside the array overwrites; writing at or past the end extends
  the array, the cells in between being holes that read as \<open>undefined\<close>.\<close>

definition arr_set :: "cell list \<Rightarrow> nat \<Rightarrow> cell \<Rightarrow> cell list" where
  "arr_set a j v =
     (if j < length a then a[j := v] else a @ replicate (j - length a) None @ [v])"

text \<open>\<open>Math.min\<close> and \<open>+ 1\<close>; both give \<open>NaN\<close> as soon as an argument is not a number.\<close>

fun js_min :: "cell \<Rightarrow> cell \<Rightarrow> cell" where
  "js_min (Some a) (Some b) = Some (min a b)"
| "js_min _ _ = None"

fun js_add1 :: "cell \<Rightarrow> cell" where
  "js_add1 (Some a) = Some (a + 1)"
| "js_add1 None = None"

subsection \<open>getLevenshteinDistance\<close>

text \<open>The body of the inner loop \<open>for (let j = 0; j <= s2.length; j++)\<close>, on the state
  \<open>(costs, lastValue)\<close>.\<close>

fun inner_step :: "string \<Rightarrow> string \<Rightarrow> nat \<Rightarrow> nat \<Rightarrow> cell list \<times> cell \<Rightarrow> cell list \<times> cell" where
  "inner_step s1 s2 i j (costs, lastValue) =
     (if i = 0 then (arr_set costs j (Some j), lastValue)
      else if j > 0 then
        (let newValue = arr_get costs (j - 1);
             newValue' =
               (if charAt s1 (i - 1) \<noteq> charAt s2 (j - 1)
                then js_add1 (js_min (js_min newValue lastValue) (arr_get costs j))
                else newValue)
         in (arr_set costs (j - 1) lastValue, newValue'))
      else (costs, lastValue))"

text \<open>The body of the outer loop \<open>for (let i = 0; i <= s1.length; i++)\<close>: \<open>lastValue\<close>
  starts at \<open>i\<close>, the inner loop runs over \<open>j = 0 .. s2.length\<close>, and for \<open>i > 0\<close> the last
  cell is written.\<close>

definition outer_step :: "string \<Rightarrow> string \<Rightarrow> nat \<Rightarrow> cell list \<Rightarrow> cell list" where
  "outer_step s1 s2 i costs =
     (case fold (inner_step s1 s2 i) [0..<Suc (length s2)] (costs, Some i) of
        (costs', lastValue) \<Rightarrow>
          if i > 0 then arr_set costs' (length s2) lastValue else costs')"

definition getLevenshteinDistance :: "string \<Rightarrow> string \<Rightarrow> cell" where
  "getLevenshteinDistance s1 s2 =
     arr_get (fold (outer_step s1 s2) [0..<Suc (length s1)] []) (length s2)"

subsection \<open>calculateSimilarity\<close>

text \<open>The score is a rational, or \<open>NaN\<close> (\<open>None\<close>) if the distance were not a number.
  The source nests the test \<open>ratio > 0.7\<close> inside the containment test and falls through
  to the distance when either fails; here the two tests are one conjunction.\<close>

type_synonym score = "rat option"

definition normalized :: "string \<Rightarrow> string" where
  "normalized str = trim (toLowerCase str)"

definition calculateSimilarity :: "string \<Rightarrow> string \<Rightarrow> score" where
  "calculateSimilarity str1 str2 =
     (let s1 = normalized str1; s2 = normalized str2
      in if s1 = s2 then Some 1
         else
           let ratio = (of_nat (min (length s1) (length s2)) :: rat)
                        / of_nat (max (length s1) (length s2))
           in if (includes_str s1 s2 \<or> includes_str s2 s1) \<and> ratio > 7 / 10 then Some ratio
              else
                let longer = (if length s1 > length s2 then s1 else s2);
                    shorter = (if length s1 > length s2 then s2 else s1)
                in if length longer = 0 then Some 1
                   else case getLevenshteinDistance shorter longer of
                          None \<Rightarrow> None
                        | Some editDistance \<Rightarrow>
                            Some (1 - of_nat editDistance / of_nat (length longer)))"

text \<open>The comparison \<open>similarity > t\<close>; it is false when \<open>similarity\<close> is \<open>NaN\<close>.\<close>

fun exceeds :: "score \<Rightarrow> rat \<Rightarrow> bool" where
  "exceeds (Some r) t = (r > t)"
| "exceeds None t = False"

subsection \<open>Tasks (src/types.ts) and the records of the service\<close>

datatype Priority = Urgent | High | Normal | Low

record Task =
  title :: string
  description :: string
  priority :: Priority
  dueDate :: "string option"

record TaskWithMetadata = Task +
  index :: nat
  source :: "string option"

text \<open>The object literal \<open>{ title: t.title, description: t.description, priority:
  t.priority, dueDate: t.dueDate }\<close>.\<close>

definition plainTask :: "TaskWithMetadata \<Rightarrow> Task" where
  "plainTask t =
     \<lparr>title = title t, description = description t, priority = priority t,
      dueDate = dueDate t\<rparr>"

subsection \<open>findPotentialDuplicates\<close>

text \<open>The two nested loops push \<open>[i, j]\<close> for \<open>i\<close> from \<open>0\<close> and \<open>j\<close> from \<open>i + 1\<close>, in
  this order.\<close>

definition findPotentialDuplicates :: "TaskWithMetadata list \<Rightarrow> (nat \<times> nat) list" where
  "findPotentialDuplicates ts =
     concat (map (\<lambda>i.
       concat (map (\<lambda>j.
         if exceeds (calculateSimilarity (title (ts ! i)) (title (ts ! j))) (6 / 10)
         then [(i, j)] else [])
       [i + 1..<length ts]))
     [0..<length ts])"

subsection \<open>checkAgainstClickUp\<close>

record ClickUpEntry =
  entryTitle :: string
  entryId :: string

record CacheMatch =
  extractedTaskIndex :: nat
  clickupTaskId :: string
  similarity :: score

definition checkAgainstClickUp :: "Task list \<Rightarrow> ClickUpEntry list \<Rightarrow> CacheMatch list" where
  "checkAgainstClickUp extractedTasks existingClickUpTasks =
     concat (map (\<lambda>i.
       concat (map (\<lambda>existingTask.
         let sim = calculateSimilarity (title (extractedTasks ! i)) (entryTitle existingTask)
         in if exceeds sim (75 / 100)
            then [\<lparr>extractedTaskIndex = i, clickupTaskId = entryId existingTask,
                   similarity = sim\<rparr>]
            else [])
       existingClickUpTasks))
     [0..<length extractedTasks])"

subsection \<open>The language-model client and its replies\<close>

text \<open>The module variable \<open>anthropic\<close> (here: whether it holds a client), the environment
  variable \<open>ANTHROPIC_API_KEY\<close>, and the number of requests sent to the model service so
  far.\<close>

record World =
  anthropic :: bool
  ANTHROPIC_API_KEY :: "string option"
  requests :: nat

datatype exn =
    MissingApiKey
  | RequestFailed
  | UnexpectedResponseType
  | TypeError
  | SyntaxError

text \<open>\<open>!apiKey\<close> holds for an unset variable and for the empty string.\<close>

definition getAnthropicClient :: "World \<Rightarrow> exn + World" where
  "getAnthropicClient w =
     (if \<not> anthropic w then
        (case ANTHROPIC_API_KEY w of
           None \<Rightarrow> Inl MissingApiKey
         | Some apiKey \<Rightarrow>
             if apiKey = [] then Inl MissingApiKey else Inr (w\<lparr>anthropic := True\<rparr>))
      else Inr w)"

text \<open>What the model service does with a request is not decided by this code: the request
  is rejected (network failure, authentication failure, rate limiting), or a message with a
  list of content blocks comes back. The reply is a parameter of the model; the request text
  built from the batch and the candidate pairs is not modelled.\<close>

datatype ContentBlock = TextBlock string | OtherBlock

datatype Reply = Rejected | Message "ContentBlock list"

definition messages_create :: "Reply \<Rightarrow> World \<Rightarrow> (exn + ContentBlock list) \<times> World" where
  "messages_create reply w =
     (case reply of
        Rejected \<Rightarrow> (Inl RequestFailed, w\<lparr>requests := requests w + 1\<rparr>)
      | Message content \<Rightarrow> (Inr content, w\<lparr>requests := requests w + 1\<rparr>))"

subsection \<open>Values parsed from the reply\<close>

text \<open>A value produced by \<open>JSON.parse\<close>. A number is the rational value of the parsed
  double. An object is its list of members, one per key, read with \<open>map_of\<close>.\<close>

datatype json =
    JNull
  | JBool bool
  | JNum rat
  | JStr string
  | JArr "json list"
  | JObj "(string \<times> json) list"

text \<open>A JavaScript value at run time: a parsed value, or \<open>undefined\<close> (\<open>None\<close>).\<close>

type_synonym jsval = "json option"

text \<open>The match of the regular expression \<open>/\{[\s\S]*\}/\<close>: from the first opening brace
  to the last closing brace after it, if there is one.\<close>

definition json_match :: "string \<Rightarrow> string option" where
  "json_match text =
     (let fromBrace = dropWhile (\<lambda>c. c \<noteq> CHR ''{'') text;
          matched = rev (dropWhile (\<lambda>c. c \<noteq> CHR ''}'') (rev fromBrace))
      in if matched = [] then None else Some matched)"

text \<open>Property access \<open>v.name\<close> for one of the names this module reads (\<open>duplicates\<close>,
  \<open>taskIndex\<close>, \<open>duplicateOfIndex\<close>, \<open>reason\<close>, \<open>merges\<close>, \<open>mergedTask\<close>, \<open>primaryIndex\<close>,
  \<open>mergeIndices\<close>): on \<open>null\<close> it throws a TypeError, on an object it is the member or
  \<open>undefined\<close>, on every other value it is \<open>undefined\<close>.\<close>

fun get_prop :: "json \<Rightarrow> string \<Rightarrow> exn + jsval" where
  "get_prop JNull name = Inl TypeError"
| "get_prop (JObj members) name = Inr (map_of members name)"
| "get_prop _ name = Inr None"

fun truthy :: "jsval \<Rightarrow> bool" where
  "truthy None = False"
| "truthy (Some JNull) = False"
| "truthy (Some (JBool b)) = b"
| "truthy (Some (JNum r)) = (r \<noteq> 0)"
| "truthy (Some (JStr s)) = (s \<noteq> [])"
| "truthy (Some (JArr xs)) = True"
| "truthy (Some (JObj members)) = True"

fun isArray :: "jsval \<Rightarrow> bool" where
  "isArray (Some (JArr xs)) = True"
| "isArray _ = False"

text \<open>The elements that \<open>for (const x of v)\<close> and \<open>v.map\<close> visit: those of an array, the
  characters of a string; any other value is not iterable.\<close>

fun iterate :: "jsval \<Rightarrow> exn + json list" where
  "iterate (Some (JArr xs)) = Inr xs"
| "iterate (Some (JStr s)) = Inr (map (\<lambda>c. JStr [c]) s)"
| "iterate _ = Inl TypeError"

text \<open>\<open>set.has(i)\<close> for a task index \<open>i\<close>: some member of the set is the number \<open>i\<close>.\<close>

definition has :: "jsval list \<Rightarrow> nat \<Rightarrow> bool" where
  "has members i = (Some (JNum (of_nat i)) \<in> set members)"

subsection \<open>deduplicateTasks\<close>

record DuplicateMatch =
  taskIndex :: jsval
  duplicateOfIndex :: jsval
  reason :: json

record DeduplicationResult =
  duplicates :: "DuplicateMatch list"
  uniqueTasks :: "Task list"
  totalDuplicates :: nat

text \<open>\<open>tasks.map((t, i) => ({ ...t, index: i }))\<close>\<close>

definition withIndex :: "Task list \<Rightarrow> TaskWithMetadata list" where
  "withIndex batch =
     map (\<lambda>(i, t). \<lparr>title = title t, description = description t, priority = priority t,
                     dueDate = dueDate t, index = i, source = None\<rparr>)
         (enumerate 0 batch)"

text \<open>The callback of \<open>parsed.duplicates.map\<close>; \<open>dup.reason || 'Identified as duplicate'\<close>.\<close>

definition toDuplicateMatch :: "json \<Rightarrow> exn + DuplicateMatch" where
  "toDuplicateMatch dup =
     (case get_prop dup ''taskIndex'' of
        Inl e \<Rightarrow> Inl e
      | Inr ti \<Rightarrow>
        (case get_prop dup ''duplicateOfIndex'' of
           Inl e \<Rightarrow> Inl e
         | Inr di \<Rightarrow>
           (case get_prop dup ''reason'' of
              Inl e \<Rightarrow> Inl e
            | Inr r \<Rightarrow>
                Inr \<lparr>taskIndex = ti, duplicateOfIndex = di,
                     reason = (case r of
                                 Some v \<Rightarrow> if truthy r then v else JStr ''Identified as duplicate''
                               | None \<Rightarrow> JStr ''Identified as duplicate'')\<rparr>)))"

fun mapDuplicates :: "json list \<Rightarrow> exn + DuplicateMatch list" where
  "mapDuplicates [] = Inr []"
| "mapDuplicates (dup # dups) =
     (case toDuplicateMatch dup of
        Inl e \<Rightarrow> Inl e
      | Inr d \<Rightarrow> (case mapDuplicates dups of Inl e \<Rightarrow> Inl e | Inr ds \<Rightarrow> Inr (d # ds)))"

definition noDuplicates :: "Task list \<Rightarrow> DeduplicationResult" where
  "noDuplicates batch = \<lparr>duplicates = [], uniqueTasks = batch, totalDuplicates = 0\<rparr>"

text \<open>The statements of the \<open>try\<close> block after the reply has arrived. \<open>parse\<close> is
  \<open>JSON.parse\<close>, with \<open>None\<close> for a SyntaxError.\<close>

definition dedupFromContent ::
  "(string \<Rightarrow> json option) \<Rightarrow> Task list \<Rightarrow> TaskWithMetadata list \<Rightarrow> ContentBlock list
   \<Rightarrow> exn + DeduplicationResult" where
  "dedupFromContent parse batch tasksWithMeta content =
     (case content of
        [] \<Rightarrow> Inl TypeError
      | OtherBlock # _ \<Rightarrow> Inl UnexpectedResponseType
      | TextBlock text # _ \<Rightarrow>
        (case json_match text of
           None \<Rightarrow> Inr (noDuplicates batch)
         | Some jsonMatch \<Rightarrow>
           (case parse jsonMatch of
              None \<Rightarrow> Inl SyntaxError
            | Some parsed \<Rightarrow>
              (case get_prop parsed ''duplicates'' of
                 Inl e \<Rightarrow> Inl e
               | Inr dups \<Rightarrow>
                   if \<not> truthy dups \<or> \<not> isArray dups then Inr (noDuplicates batch)
                   else
                     (case iterate dups of
                        Inl e \<Rightarrow> Inl e
                      | Inr entries \<Rightarrow>
                        (case mapDuplicates entries of
                           Inl e \<Rightarrow> Inl e
                         | Inr dupl \<Rightarrow>
                             let duplicateIndices = map taskIndex dupl;
                                 uniq = map plainTask
                                          (filter (\<lambda>t. \<not> has duplicateIndices (index t))
                                                  tasksWithMeta)
                             in Inr \<lparr>duplicates = dupl, uniqueTasks = uniq,
                                     totalDuplicates = length dupl\<rparr>))))))"

text \<open>The whole function: the result or the exception thrown to the caller, and the world
  afterwards. The \<open>catch\<close> clause turns every exception of the \<open>try\<close> block into the
  result without duplicates.\<close>

definition deduplicateTasks ::
  "(string \<Rightarrow> json option) \<Rightarrow> Reply \<Rightarrow> World \<Rightarrow> Task list
   \<Rightarrow> (exn + DeduplicationResult) \<times> World" where
  "deduplicateTasks parse reply w batch =
     (if length batch = 0
      then (Inr \<lparr>duplicates = [], uniqueTasks = [], totalDuplicates = 0\<rparr>, w)
      else
        (case getAnthropicClient w of
           Inl e \<Rightarrow> (Inl e, w)
         | Inr w1 \<Rightarrow>
             let tasksWithMeta = withIndex batch;
                 potentialPairs = findPotentialDuplicates tasksWithMeta
             in if length potentialPairs = 0 then (Inr (noDuplicates batch), w1)
                else
                  (case messages_create reply w1 of
                     (Inl e, w2) \<Rightarrow> (Inr (noDuplicates batch), w2)
                   | (Inr content, w2) \<Rightarrow>
                     (case dedupFromContent parse batch tasksWithMeta content of
                        Inl e \<Rightarrow> (Inr (noDuplicates batch), w2)
                      | Inr res \<Rightarrow> (Inr res, w2)))))"

subsection \<open>mergeSimilarTasks\<close>

record Meeting =
  meetingTitle :: string
  tasks :: "Task list"

text \<open>An element of the returned array: a task of the input rebuilt field by field, or the
  \<open>mergedTask\<close> value of a merge group exactly as the reply gave it.\<close>

datatype MergedEntry = Kept Task | Consolidated json

text \<open>The loops that flatten the meetings, numbering the tasks with \<open>index++\<close> and
  labelling each with its meeting.\<close>

definition flattenMeetings :: "Meeting list \<Rightarrow> TaskWithMetadata list" where
  "flattenMeetings tasksByMeeting =
     map (\<lambda>(i, (t, m)). \<lparr>title = title t, description = description t,
                          priority = priority t, dueDate = dueDate t, index = i,
                          source = Some m\<rparr>)
         (enumerate 0
            (concat (map (\<lambda>meeting. map (\<lambda>t. (t, meetingTitle meeting)) (tasks meeting))
                         tasksByMeeting)))"

definition unmerged :: "TaskWithMetadata list \<Rightarrow> MergedEntry list" where
  "unmerged allTasksWithSource = map (\<lambda>t. Kept (plainTask t)) allTasksWithSource"

text \<open>The loop \<open>for (const merge of merges)\<close> on the state \<open>(merged, result)\<close>; the set
  \<open>merged\<close> is kept as the list of the values added to it.\<close>

fun applyMerges ::
  "json list \<Rightarrow> jsval list \<times> MergedEntry list \<Rightarrow> exn + (jsval list \<times> MergedEntry list)" where
  "applyMerges [] st = Inr st"
| "applyMerges (merge # rest) (merged, result) =
     (case get_prop merge ''mergedTask'' of
        Inl e \<Rightarrow> Inl e
      | Inr mergedTask \<Rightarrow>
          if truthy mergedTask then
            (case get_prop merge ''primaryIndex'' of
               Inl e \<Rightarrow> Inl e
             | Inr primaryIndex \<Rightarrow>
               (case get_prop merge ''mergeIndices'' of
                  Inl e \<Rightarrow> Inl e
                | Inr mergeIndices \<Rightarrow>
                  (case iterate (if truthy mergeIndices then mergeIndices else Some (JArr [])) of
                     Inl e \<Rightarrow> Inl e
                   | Inr idxs \<Rightarrow>
                       applyMerges rest
                         (merged @ [primaryIndex] @ map Some idxs,
                          result @ [Consolidated (the mergedTask)]))))
          else applyMerges rest (merged, result))"

text \<open>The statements of the \<open>try\<close> block after the reply has arrived.\<close>

definition mergeFromContent ::
  "(string \<Rightarrow> json option) \<Rightarrow> TaskWithMetadata list \<Rightarrow> ContentBlock list
   \<Rightarrow> exn + MergedEntry list" where
  "mergeFromContent parse allTasksWithSource content =
     (case content of
        [] \<Rightarrow> Inl TypeError
      | OtherBlock # _ \<Rightarrow> Inr (unmerged allTasksWithSource)
      | TextBlock text # _ \<Rightarrow>
        (case json_match text of
           None \<Rightarrow> Inr (unmerged allTasksWithSource)
         | Some jsonMatch \<Rightarrow>
           (case parse jsonMatch of
              None \<Rightarrow> Inl SyntaxError
            | Some parsed \<Rightarrow>
              (case get_prop parsed ''merges'' of
                 Inl e \<Rightarrow> Inl e
               | Inr m \<Rightarrow>
                 (case iterate (if truthy m then m else Some (JArr [])) of
                    Inl e \<Rightarrow> Inl e
                  | Inr merges \<Rightarrow>
                    (case applyMerges merges ([], []) of
                       Inl e \<Rightarrow> Inl e
                     | Inr (merged, result) \<Rightarrow>
                         Inr (result @
                              unmerged (filter (\<lambda>t. \<not> has merged (index t))
                                               allTasksWithSource))))))))"

definition mergeSimilarTasks ::
  "(string \<Rightarrow> json option) \<Rightarrow> Reply \<Rightarrow> World \<Rightarrow> Meeting list
   \<Rightarrow> (exn + MergedEntry list) \<times> World" where
  "mergeSimilarTasks parse reply w tasksByMeeting =
     (if length tasksByMeeting = 0 then (Inr [], w)
      else
        let allTasksWithSource = flattenMeetings tasksByMeeting
        in if length allTasksWithSource \<le> 1 then (Inr (unmerged allTasksWithSource), w)
           else
             let potentialPairs = findPotentialDuplicates allTasksWithSource
             in if length potentialPairs = 0 then (Inr (unmerged allTasksWithSource), w)
                else
                  (case getAnthropicClient w of
                     Inl e \<Rightarrow> (Inl e, w)
                   | Inr w1 \<Rightarrow>
                     (case messages_create reply w1 of
                        (Inl e, w2) \<Rightarrow> (Inr (unmerged allTasksWithSource), w2)
                      | (Inr content, w2) \<Rightarrow>
                        (case mergeFromContent parse allTasksWithSource content of
                           Inl e \<Rightarrow> (Inr (unmerged allTasksWithSource), w2)
                         | Inr res \<Rightarrow> (Inr res, w2)))))"

subsection \<open>The recurrence computed by getLevenshteinDistance\<close>

text \<open>\<open>prefix_distance a b i j\<close> is the value that the cost table holds for the first \<open>i\<close>
  characters of \<open>a\<close> and the first \<open>j\<close> characters of \<open>b\<close>: it is what the loops are shown
  to compute, not a part of the source.\<close>

fun prefix_distance :: "'a list \<Rightarrow> 'a list \<Rightarrow> nat \<Rightarrow> nat \<Rightarrow> nat" where
  "prefix_distance a b 0 j = j"
| "prefix_distance a b (Suc i) 0 = Suc i"
| "prefix_distance a b (Suc i) (Suc j) =
     (if a ! i = b ! j then prefix_distance a b i j
      else min (min (prefix_distance a b i j) (prefix_distance a b (Suc i) j))
               (prefix_distance a b i (Suc j)) + 1)"

text \<open>The array \<open>costs\<close> after row \<open>i\<close>, and in the middle of row \<open>i + 1\<close> when the inner
  loop has run for \<open>j < k\<close>: the cells before \<open>k - 1\<close> already belong to the new row.\<close>

definition dp_row :: "string \<Rightarrow> string \<Rightarrow> nat \<Rightarrow> cell list" where
  "dp_row s1 s2 i = map (\<lambda>m. Some (prefix_distance s1 s2 i m)) [0..<Suc (length s2)]"

definition dp_mixed :: "string \<Rightarrow> string \<Rightarrow> nat \<Rightarrow> nat \<Rightarrow> cell list" where
  "dp_mixed s1 s2 i k =
     map (\<lambda>m. Some (if Suc m < k then prefix_distance s1 s2 (Suc i) m
                     else prefix_distance s1 s2 i m)) [0..<Suc (length s2)]"

subsection \<open>Predicates of the statements\<close>

text \<open>A client handle can be obtained: one was constructed earlier, or the key is set to
  a non-empty string.\<close>

definition clientAvailable :: "World \<Rightarrow> bool" where
  "clientAvailable w =
     (anthropic w \<or> (case ANTHROPIC_API_KEY w of None \<Rightarrow> False | Some apiKey \<Rightarrow> apiKey \<noteq> []))"

text \<open>The member \<open>name\<close> of a parsed object; \<open>undefined\<close> if absent or if the value is
  not an object.\<close>

definition member :: "json \<Rightarrow> string \<Rightarrow> jsval" where
  "member v name = (case v of JObj members \<Rightarrow> map_of members name | _ \<Rightarrow> None)"

text \<open>A malformed reply text, in the words of the specification: it holds no payload, or
  the payload does not parse, or the duplicates field of the parsed value is absent or not a
  list.\<close>

definition malformedReply :: "(string \<Rightarrow> json option) \<Rightarrow> string \<Rightarrow> bool" where
  "malformedReply parse text =
     (case json_match text of
        None \<Rightarrow> True
      | Some payload \<Rightarrow>
        (case parse payload of
           None \<Rightarrow> True
         | Some parsed \<Rightarrow> \<not> isArray (member parsed ''duplicates'')))"

text \<open>A malformed response: the request was answered, and the answer has no content
  block, or its first block is not text, or the text is malformed.\<close>

definition malformedResponse :: "(string \<Rightarrow> json option) \<Rightarrow> Reply \<Rightarrow> bool" where
  "malformedResponse parse reply =
     (case reply of
        Rejected \<Rightarrow> False
      | Message [] \<Rightarrow> True
      | Message (OtherBlock # _) \<Rightarrow> True
      | Message (TextBlock text # _) \<Rightarrow> malformedReply parse text)"

text \<open>The entries of the duplicates list that a reply carries; none if the reply has no
  such list.\<close>

definition replyDuplicates :: "(string \<Rightarrow> json option) \<Rightarrow> Reply \<Rightarrow> json list" where
  "replyDuplicates parse reply =
     (case reply of
        Message (TextBlock text # _) \<Rightarrow>
          (case json_match text of
             None \<Rightarrow> []
           | Some payload \<Rightarrow>
             (case parse payload of
                None \<Rightarrow> []
              | Some parsed \<Rightarrow>
                (case member parsed ''duplicates'' of
                   Some (JArr entries) \<Rightarrow> entries
                 | _ \<Rightarrow> [])))
      | _ \<Rightarrow> [])"

text \<open>The merge groups that a reply carries (\<open>parsed.merges || []\<close>), and the values that
  one group names: its \<open>primaryIndex\<close> and the elements of \<open>mergeIndices || []\<close>.\<close>

definition replyMerges :: "(string \<Rightarrow> json option) \<Rightarrow> Reply \<Rightarrow> json list" where
  "replyMerges parse reply =
     (case reply of
        Message (TextBlock text # _) \<Rightarrow>
          (case json_match text of
             None \<Rightarrow> []
           | Some payload \<Rightarrow>
             (case parse payload of
                None \<Rightarrow> []
              | Some parsed \<Rightarrow>
                (case iterate (if truthy (member parsed ''merges'') then member parsed ''merges''
                               else Some (JArr [])) of
                   Inl e \<Rightarrow> []
                 | Inr merges \<Rightarrow> merges)))
      | _ \<Rightarrow> [])"

definition groupIndices :: "json \<Rightarrow> jsval list" where
  "groupIndices g =
     member g ''primaryIndex'' #
     (case iterate (if truthy (member g ''mergeIndices'') then member g ''mergeIndices''
                    else Some (JArr [])) of
        Inl e \<Rightarrow> []
      | Inr idxs \<Rightarrow> map Some idxs)"

text \<open>Group \<open>g\<close> accounts for the task with index \<open>k\<close> in the output \<open>out\<close>: it has a
  \<open>mergedTask\<close>, that value is an element of \<open>out\<close>, and \<open>g\<close> names \<open>k\<close>.\<close>

definition contributes :: "json \<Rightarrow> MergedEntry list \<Rightarrow> nat \<Rightarrow> bool" where
  "contributes g out k =
     (case member g ''mergedTask'' of
        None \<Rightarrow> False
      | Some mergedTask \<Rightarrow>
          truthy (Some mergedTask) \<and> Consolidated mergedTask \<in> set out
          \<and> has (groupIndices g) k)"

text \<open>The pairs \<open>(taskIndex, duplicateOfIndex)\<close> of the returned matches, and of the entries
  of a reply.\<close>

definition indexPairs :: "DuplicateMatch list \<Rightarrow> (jsval \<times> jsval) list" where
  "indexPairs ds = map (\<lambda>d. (taskIndex d, duplicateOfIndex d)) ds"

definition entryPairs :: "json list \<Rightarrow> (jsval \<times> jsval) list" where
  "entryPairs entries =
     map (\<lambda>e. (member e ''taskIndex'', member e ''duplicateOfIndex'')) entries"

text \<open>The invariant of the specification on such pairs, in its two halves. A
  \<open>duplicateOfIndex\<close> that is \<open>null\<close> or missing names no task. \<open>pointsLower\<close>: every other
  \<open>duplicateOfIndex\<close> is a number strictly below the \<open>taskIndex\<close> beside it. \<open>chainFree\<close>:
  no \<open>duplicateOfIndex\<close> is the \<open>taskIndex\<close> of an entry that is itself marked as a duplicate
  of a task.\<close>

fun isNullish :: "jsval \<Rightarrow> bool" where
  "isNullish None = True"
| "isNullish (Some JNull) = True"
| "isNullish _ = False"

fun lowerThan :: "jsval \<Rightarrow> jsval \<Rightarrow> bool" where
  "lowerThan (Some (JNum j)) (Some (JNum i)) = (j < i)"
| "lowerThan _ _ = False"

definition pointsLower :: "(jsval \<times> jsval) list \<Rightarrow> bool" where
  "pointsLower ps = list_all (\<lambda>(ti, di). isNullish di \<or> lowerThan di ti) ps"

definition chainFree :: "(jsval \<times> jsval) list \<Rightarrow> bool" where
  "chainFree ps =
     list_all (\<lambda>(ti, di). isNullish di
                 \<or> \<not> list_ex (\<lambda>(ti', di'). ti' = di \<and> \<not> isNullish di') ps) ps"

text \<open>What the \<open>catch\<close> clause of \<open>deduplicateTasks\<close> makes of the outcome of its \<open>try\<close>
  block.\<close>

definition absorbed :: "Task list \<Rightarrow> exn + DeduplicationResult \<Rightarrow> DeduplicationResult" where
  "absorbed batch x = (case x of Inl e \<Rightarrow> noDuplicates batch | Inr r \<Rightarrow> r)"

subsection \<open>Sample inputs\<close>

definition demoTask :: "string \<Rightarrow> Task" where
  "demoTask s = \<lparr>title = s, description = [], priority = Normal, dueDate = None\<rparr>"

definition demoBatch :: "Task list" where
  "demoBatch =
     [demoTask ''Schedule demo call'', demoTask ''Schedule a demo call'',
      demoTask ''Unrelated topic entirely'']"

definition keylessWorld :: World where
  "keylessWorld = \<lparr>anthropic = False, ANTHROPIC_API_KEY = None, requests = 0\<rparr>"

definition freshWorld :: World where
  "freshWorld = \<lparr>anthropic = False, ANTHROPIC_API_KEY = Some ''sk-test'', requests = 0\<rparr>"

definition followUps :: "Task list" where
  "followUps = [demoTask ''Send follow-up email'', demoTask ''Send follow-up email'']"

definition unrelated :: "Task list" where
  "unrelated = [demoTask ''Schedule demo call'', demoTask ''Unrelated topic entirely'']"

definition threeFollowUps :: "Task list" where
  "threeFollowUps =
     [demoTask ''Send follow-up email'', demoTask ''Send follow-up email'',
      demoTask ''Send follow-up email'']"

text \<open>Four reply texts, and \<open>JSON.parse\<close> restricted to their payloads.\<close>

definition chainedText :: string where
  \<open>chainedText =
     ''{"duplicates":[{"taskIndex":2,"duplicateOfIndex":1},{"taskIndex":1,"duplicateOfIndex":0}]}''\<close>

definition reversedText :: string where
  \<open>reversedText =
     ''{"duplicates":[{"taskIndex":0,"duplicateOfIndex":1,"reason":"same follow-up"}]}''\<close>

definition forwardText :: string where
  \<open>forwardText =
     ''Here you go: {"duplicates":[{"taskIndex":1,"duplicateOfIndex":0}],"summary":"Found 1"}''\<close>

definition mergeText :: string where
  \<open>mergeText =
     ''{"merges":[{"primaryIndex":0,"mergeIndices":[2],"mergedTask":{"title":"Send the follow-up email"}},{"primaryIndex":1,"mergeIndices":[3]}]}''\<close>

definition sampleParse :: "string \<Rightarrow> json option" where
  \<open>sampleParse s =
     (if s = ''{"duplicates":[{"taskIndex":0,"duplicateOfIndex":1,"reason":"same follow-up"}]}''
      then Some (JObj [(''duplicates'',
                  JArr [JObj [(''taskIndex'', JNum 0), (''duplicateOfIndex'', JNum 1),
                              (''reason'', JStr ''same follow-up'')]])])
      else if s = ''{"duplicates":[{"taskIndex":1,"duplicateOfIndex":0}],"summary":"Found 1"}''
      then Some (JObj [(''duplicates'',
                  JArr [JObj [(''taskIndex'', JNum 1), (''duplicateOfIndex'', JNum 0)]]),
                 (''summary'', JStr ''Found 1'')])
      else if s = ''{"merges":[{"primaryIndex":0,"mergeIndices":[2],"mergedTask":{"title":"Send the follow-up email"}},{"primaryIndex":1,"mergeIndices":[3]}]}''
      then Some (JObj [(''merges'',
                  JArr [JObj [(''primaryIndex'', JNum 0), (''mergeIndices'', JArr [JNum 2]),
                              (''mergedTask'',
                               JObj [(''title'', JStr ''Send the follow-up email'')])],
                        JObj [(''primaryIndex'', JNum 1), (''mergeIndices'', JArr [JNum 3])]])])
      else if s = ''{"duplicates":[{"taskIndex":2,"duplicateOfIndex":1},{"taskIndex":1,"duplicateOfIndex":0}]}''
      then Some (JObj [(''duplicates'',
                  JArr [JObj [(''taskIndex'', JNum 2), (''duplicateOfIndex'', JNum 1)],
                        JObj [(''taskIndex'', JNum 1), (''duplicateOfIndex'', JNum 0)]])])
      else None)\<close>

definition twoMeetings :: "Meeting list" where
  "twoMeetings =
     [\<lparr>meetingTitle = ''Kickoff'',
       tasks = [demoTask ''Send follow-up email'', demoTask ''Schedule demo call'']\<rparr>,
      \<lparr>meetingTitle = ''Review'',
       tasks = [demoTask ''Send follow-up email'', demoTask ''Schedule a demo call'']\<rparr>]"

section \<open>Verification\<close>

subsection \<open>The loops of getLevenshteinDistance compute the recurrence\<close>

lemma prefix_distance_0_right [simp]: "prefix_distance a b i 0 = i"
  by (cases i) simp_all

lemma row0_fold:
  "fold (inner_step s1 s2 0) [0..<k] ([], lv) = (map Some [0..<k], lv)"
  by (induction k) (simp_all add: arr_set_def)

lemma outer_step_0: "outer_step s1 s2 0 [] = dp_row s1 s2 0"
  unfolding outer_step_def dp_row_def row0_fold by (simp add: comp_def)

lemma dp_mixed_0: "dp_mixed s1 s2 i 0 = dp_row s1 s2 i"
  by (simp add: dp_mixed_def dp_row_def)

lemma length_dp_mixed [simp]: "length (dp_mixed s1 s2 i k) = Suc (length s2)"
  by (simp add: dp_mixed_def)

lemma nth_dp_mixed:
  "m \<le> length s2 \<Longrightarrow> dp_mixed s1 s2 i k ! m =
     Some (if Suc m < k then prefix_distance s1 s2 (Suc i) m else prefix_distance s1 s2 i m)"
  unfolding dp_mixed_def by (simp add: nth_map_upt del: upt_Suc)

lemma inner_step_mixed:
  assumes "i < length s1" "k \<le> length s2"
  shows "inner_step s1 s2 (Suc i) k (dp_mixed s1 s2 i k, Some (prefix_distance s1 s2 (Suc i) (k - 1)))
         = (dp_mixed s1 s2 i (Suc k), Some (prefix_distance s1 s2 (Suc i) k))"
proof (cases k)
  case 0
  then show ?thesis by (simp add: dp_mixed_def)
next
  case (Suc k')
  have get1: "arr_get (dp_mixed s1 s2 i k) k' = Some (prefix_distance s1 s2 i k')"
    using assms Suc by (simp add: arr_get_def nth_dp_mixed)
  have get2: "arr_get (dp_mixed s1 s2 i k) k = Some (prefix_distance s1 s2 i k)"
    using assms by (simp add: arr_get_def nth_dp_mixed)
  have chars: "(charAt s1 i \<noteq> charAt s2 k') = (s1 ! i \<noteq> s2 ! k')"
    using assms Suc by (simp add: charAt_def)
  have upd: "arr_set (dp_mixed s1 s2 i k) k' (Some (prefix_distance s1 s2 (Suc i) k'))
             = dp_mixed s1 s2 i (Suc k)"
  proof (rule nth_equalityI)
    show "length (arr_set (dp_mixed s1 s2 i k) k' (Some (prefix_distance s1 s2 (Suc i) k')))
          = length (dp_mixed s1 s2 i (Suc k))"
      using assms Suc by (simp add: arr_set_def)
  next
    fix m assume "m < length (arr_set (dp_mixed s1 s2 i k) k' (Some (prefix_distance s1 s2 (Suc i) k')))"
    then have m: "m \<le> length s2" using assms Suc by (simp add: arr_set_def)
    show "arr_set (dp_mixed s1 s2 i k) k' (Some (prefix_distance s1 s2 (Suc i) k')) ! m
          = dp_mixed s1 s2 i (Suc k) ! m"
      using assms Suc m by (auto simp: arr_set_def nth_dp_mixed nth_list_update)
  qed
  show ?thesis
    using get1 get2 chars upd Suc by (simp add: Let_def)
qed

lemma inner_fold_mixed:
  assumes "i < length s1"
  shows "k \<le> Suc (length s2) \<Longrightarrow>
         fold (inner_step s1 s2 (Suc i)) [0..<k] (dp_row s1 s2 i, Some (Suc i))
         = (dp_mixed s1 s2 i k, Some (prefix_distance s1 s2 (Suc i) (k - 1)))"
proof (induction k)
  case 0
  then show ?case by (simp add: dp_mixed_0)
next
  case (Suc k)
  then have "k \<le> length s2" by simp
  from inner_step_mixed [OF assms this] Suc show ?case by simp
qed

lemma outer_step_Suc:
  assumes "i < length s1"
  shows "outer_step s1 s2 (Suc i) (dp_row s1 s2 i) = dp_row s1 s2 (Suc i)"
proof -
  have "arr_set (dp_mixed s1 s2 i (Suc (length s2))) (length s2)
          (Some (prefix_distance s1 s2 (Suc i) (length s2))) = dp_row s1 s2 (Suc i)"
    by (rule nth_equalityI)
       (auto simp: arr_set_def nth_dp_mixed nth_list_update dp_row_def nth_map_upt
             simp del: upt_Suc)
  then show ?thesis
    unfolding outer_step_def inner_fold_mixed [OF assms order_refl] by simp
qed

lemma outer_fold_row:
  "k \<le> length s1 \<Longrightarrow> fold (outer_step s1 s2) [0..<Suc k] [] = dp_row s1 s2 k"
proof (induction k)
  case 0
  show ?case by (simp add: outer_step_0)
next
  case (Suc k)
  then have "fold (outer_step s1 s2) [0..<Suc k] [] = dp_row s1 s2 k" and "k < length s1"
    by simp_all
  then show ?case
    using outer_step_Suc [of k s1 s2] by (simp del: upt_Suc add: upt_Suc_append)
qed

lemma getLevenshteinDistance_eq:
  "getLevenshteinDistance s1 s2 = Some (prefix_distance s1 s2 (length s1) (length s2))"
  unfolding getLevenshteinDistance_def outer_fold_row [OF order_refl]
  by (simp add: arr_get_def dp_row_def nth_map_upt del: upt_Suc)

lemma prefix_distance_sym: "prefix_distance a b i j = prefix_distance b a j i"
  by (induction a b i j rule: prefix_distance.induct) (auto simp: min.commute min.left_commute eq_commute)

lemma prefix_distance_le: "prefix_distance a b i j \<le> max i j"
  by (induction a b i j rule: prefix_distance.induct) auto

lemma prefix_distance_zero:
  "i \<le> length a \<Longrightarrow> j \<le> length b \<Longrightarrow> (prefix_distance a b i j = 0) = (take i a = take j b)"
proof (induction a b i j rule: prefix_distance.induct)
  case (1 a b j)
  then show ?case by auto
next
  case (2 a b i)
  then show ?case by auto
next
  case (3 a b i j)
  then have ij: "i < length a" "j < length b" by simp_all
  have "(take (Suc i) a = take (Suc j) b) = (take i a = take j b \<and> a ! i = b ! j)"
  proof
    assume eq: "take (Suc i) a = take (Suc j) b"
    then have "length (take (Suc i) a) = length (take (Suc j) b)" by simp
    then have "i = j" using ij by simp
    with eq ij show "take i a = take j b \<and> a ! i = b ! j"
      by (simp add: take_Suc_conv_app_nth)
  next
    assume "take i a = take j b \<and> a ! i = b ! j"
    then show "take (Suc i) a = take (Suc j) b"
      using ij by (simp add: take_Suc_conv_app_nth)
  qed
  with 3 ij show ?case by auto
qed

subsection \<open>Properties of calculateSimilarity\<close>

lemma includes_same_length:
  "includes_str s t \<Longrightarrow> length s = length t \<Longrightarrow> s = t"
  by (auto simp: includes_str_def sublist_def)

lemma lev_bounds:
  assumes "getLevenshteinDistance s t = Some d"
  shows "d \<le> max (length s) (length t)" and "(d = 0) = (s = t)"
  using assms prefix_distance_le [of s t "length s" "length t"]
        prefix_distance_zero [of "length s" s "length t" t]
  by (simp_all add: getLevenshteinDistance_eq)

lemma lev_sym: "getLevenshteinDistance s t = getLevenshteinDistance t s"
  by (simp add: getLevenshteinDistance_eq prefix_distance_sym [of s t])

lemma ratio_lt_one:
  assumes "length s1 \<noteq> length s2"
  shows "(of_nat (min (length s1) (length s2)) :: rat) / of_nat (max (length s1) (length s2)) < 1"
    and "0 \<le> (of_nat (min (length s1) (length s2)) :: rat) / of_nat (max (length s1) (length s2))"
proof -
  have "min (length s1) (length s2) < max (length s1) (length s2)" using assms by auto
  then have "(of_nat (min (length s1) (length s2)) :: rat) < of_nat (max (length s1) (length s2))"
    by (simp only: of_nat_less_iff)
  then show "(of_nat (min (length s1) (length s2)) :: rat) / of_nat (max (length s1) (length s2)) < 1"
    by (simp add: divide_less_eq_1)
  show "0 \<le> (of_nat (min (length s1) (length s2)) :: rat) / of_nat (max (length s1) (length s2))"
    by simp
qed

lemma lev_score:
  assumes "s \<noteq> t" "length t \<noteq> 0" "length s \<le> length t"
  shows "\<exists>d. getLevenshteinDistance s t = Some d \<and> 0 < d \<and> d \<le> length t"
  using assms lev_bounds [of s t] by (auto simp: getLevenshteinDistance_eq)

lemma calc_cases:
  assumes "normalized a \<noteq> normalized b"
  shows "\<exists>r. calculateSimilarity a b = Some r \<and> 0 \<le> r \<and> r < 1"
proof -
  let ?s1 = "normalized a" and ?s2 = "normalized b"
  let ?ratio = "(of_nat (min (length ?s1) (length ?s2)) :: rat) / of_nat (max (length ?s1) (length ?s2))"
  show ?thesis
  proof (cases "(includes_str ?s1 ?s2 \<or> includes_str ?s2 ?s1) \<and> ?ratio > 7 / 10")
    case True
    then have "length ?s1 \<noteq> length ?s2"
      using assms includes_same_length [of ?s1 ?s2] includes_same_length [of ?s2 ?s1] by auto
    from ratio_lt_one [OF this] True assms show ?thesis
      by (simp add: calculateSimilarity_def Let_def)
  next
    case False
    let ?longer = "if length ?s1 > length ?s2 then ?s1 else ?s2"
    let ?shorter = "if length ?s1 > length ?s2 then ?s2 else ?s1"
    have ne: "?shorter \<noteq> ?longer" using assms by auto
    have len: "length ?shorter \<le> length ?longer" by simp
    have nz: "length ?longer \<noteq> 0" using assms by auto
    from lev_score [OF ne nz len] obtain d where
      d: "getLevenshteinDistance ?shorter ?longer = Some d" "0 < d" "d \<le> length ?longer"
      by blast
    have eq: "calculateSimilarity a b = Some (1 - of_nat d / of_nat (length ?longer))"
      by (simp only: calculateSimilarity_def Let_def if_not_P [OF assms] if_not_P [OF False]
            if_not_P [OF nz] d(1) option.case)
    have pos: "(0::rat) < of_nat (length ?longer)" using nz by simp
    have "(of_nat d :: rat) \<le> of_nat (length ?longer)" using d(3) by (simp only: of_nat_le_iff)
    then have le1: "(of_nat d :: rat) / of_nat (length ?longer) \<le> 1"
      using pos by (simp add: divide_le_eq_1)
    have "(0::rat) < of_nat d" using d(2) by simp
    then have gt0: "(0::rat) < of_nat d / of_nat (length ?longer)"
      using pos by (simp only: zero_less_divide_iff) simp
    show ?thesis using eq le1 gt0 by simp
  qed
qed

text \<open>
  Claim C5. For all strings \<open>a\<close> and \<open>b\<close> the score \<open>calculateSimilarity a b\<close> is a
  number between 0 and 1, it is 1 exactly when \<open>a\<close> and \<open>b\<close> are the same string after
  lower-casing and trimming, and \<open>calculateSimilarity a a\<close> is 1.
\<close>

theorem calculateSimilarity_range:
  "(\<exists>r. calculateSimilarity a b = Some r \<and> 0 \<le> r \<and> r \<le> 1
        \<and> ((r = 1) = (normalized a = normalized b)))
   \<and> calculateSimilarity a a = Some 1"
proof (cases "normalized a = normalized b")
  case True
  then show ?thesis by (simp add: calculateSimilarity_def)
next
  case False
  from calc_cases [OF False] show ?thesis
    using False by (auto simp: calculateSimilarity_def)
qed

theorem calculateSimilarity_range_witness:
  "calculateSimilarity ''  Send Follow-Up Email'' ''send follow-up email '' = Some 1
   \<and> (\<exists>r. calculateSimilarity ''Schedule demo call'' ''Schedule a demo call'' = Some r
           \<and> 0 \<le> r \<and> r < 1)"
proof -
  have same: "normalized ''  Send Follow-Up Email'' = normalized ''send follow-up email ''"
    by code_simp
  have diff: "normalized ''Schedule demo call'' \<noteq> normalized ''Schedule a demo call''"
    by code_simp
  from calculateSimilarity_range [of "''  Send Follow-Up Email''" "''send follow-up email ''"]
       calculateSimilarity_range [of "''Schedule demo call''" "''Schedule a demo call''"]
       same diff
  show ?thesis by auto
qed

text \<open>
  Claim C6. \<open>calculateSimilarity\<close> is symmetric: exchanging the two strings does not
  change the score.
\<close>

theorem calculateSimilarity_symmetric:
  "calculateSimilarity a b = calculateSimilarity b a"
proof -
  let ?s1 = "normalized a" and ?s2 = "normalized b"
  consider "length ?s1 > length ?s2" | "length ?s1 < length ?s2" | "length ?s1 = length ?s2"
    by linarith
  then show ?thesis
  proof cases
    case 1
    then show ?thesis
      unfolding calculateSimilarity_def Let_def
      by (auto simp: min.commute max.commute)
  next
    case 2
    then show ?thesis
      unfolding calculateSimilarity_def Let_def
      by (auto simp: min.commute max.commute)
  next
    case 3
    then show ?thesis
      unfolding calculateSimilarity_def Let_def
      using lev_sym [of ?s1 ?s2]
      by (auto simp: min.commute max.commute split: option.splits)
  qed
qed

theorem calculateSimilarity_symmetric_witness:
  "calculateSimilarity ''Schedule a demo call'' ''Schedule demo call'' = Some (9 / 10)"
proof -
  have "calculateSimilarity ''Schedule demo call'' ''Schedule a demo call'' = Some (9 / 10)"
    by code_simp
  with calculateSimilarity_symmetric [of "''Schedule a demo call''" "''Schedule demo call''"]
  show ?thesis by simp
qed

subsection \<open>Candidate pairs and cache matches\<close>

lemma set_findPotentialDuplicates:
  "set (findPotentialDuplicates ts) =
     {(i, j). i < j \<and> j < length ts \<and>
              exceeds (calculateSimilarity (title (ts ! i)) (title (ts ! j))) (6 / 10)}"
  unfolding findPotentialDuplicates_def by (auto split: if_splits)

lemma filter_pairs:
  "concat (map (\<lambda>j. if P j then [(i, j)] else []) xs) = map (Pair i) (filter P xs)"
  by (induction xs) simp_all

lemma distinct_findPotentialDuplicates: "distinct (findPotentialDuplicates ts)"
proof -
  have "distinct (concat (map (\<lambda>i. map (Pair i) (filter (P i) [i + 1..<n])) xs))"
    if "distinct xs" for P :: "nat \<Rightarrow> nat \<Rightarrow> bool" and n and xs :: "nat list"
    using that by (induction xs) (auto simp: distinct_map inj_on_def)
  then show ?thesis
    unfolding findPotentialDuplicates_def filter_pairs by simp
qed

lemma followUps_pairs: "findPotentialDuplicates (withIndex followUps) = [(0, 1)]"
  by code_simp

lemma unrelated_pairs: "findPotentialDuplicates (withIndex unrelated) = []"
  by code_simp

text \<open>
  Claim C7, as amended. On the batch with the titles "Schedule demo call", "Schedule a demo
  call" and "Unrelated topic entirely", \<open>findPotentialDuplicates\<close> yields exactly the pair
  \<open>(0, 1)\<close>, and index 2 is in no pair. The pair is admitted by the edit-distance branch:
  the distance of the two normalized titles is 2, the longer has 20 characters, the score is
  \<open>1 - 2/20 = 0.9 > 0.6\<close>. In general the result holds exactly the pairs \<open>(i, j)\<close> with
  \<open>i < j\<close> whose title similarity exceeds 0.6, each once.
\<close>

theorem findPotentialDuplicates_pairs:
  "findPotentialDuplicates (withIndex demoBatch) = [(0, 1)]
   \<and> \<not> includes_str (normalized ''Schedule demo call'') (normalized ''Schedule a demo call'')
   \<and> \<not> includes_str (normalized ''Schedule a demo call'') (normalized ''Schedule demo call'')
   \<and> getLevenshteinDistance (normalized ''Schedule demo call'')
        (normalized ''Schedule a demo call'') = Some 2
   \<and> length (normalized ''Schedule a demo call'') = 20
   \<and> calculateSimilarity ''Schedule demo call'' ''Schedule a demo call'' = Some (9 / 10)
   \<and> set (findPotentialDuplicates ts) =
        {(i, j). i < j \<and> j < length ts \<and>
                 exceeds (calculateSimilarity (title (ts ! i)) (title (ts ! j))) (6 / 10)}
   \<and> distinct (findPotentialDuplicates ts)"
proof -
  have "findPotentialDuplicates (withIndex demoBatch) = [(0, 1)]"
    by code_simp
  moreover have
    "\<not> includes_str (normalized ''Schedule demo call'') (normalized ''Schedule a demo call'')"
    "\<not> includes_str (normalized ''Schedule a demo call'') (normalized ''Schedule demo call'')"
    by code_simp+
  moreover have "getLevenshteinDistance (normalized ''Schedule demo call'')
        (normalized ''Schedule a demo call'') = Some 2"
    by code_simp
  moreover have "length (normalized ''Schedule a demo call'') = 20"
    by code_simp
  moreover have "calculateSimilarity ''Schedule demo call'' ''Schedule a demo call'' = Some (9 / 10)"
    by code_simp
  ultimately show ?thesis
    using set_findPotentialDuplicates [of ts] distinct_findPotentialDuplicates [of ts]
    by (simp only: simp_thms)
qed

text \<open>The general part of the statement at the batch of two equal titles.\<close>

theorem findPotentialDuplicates_pairs_witness:
  "set (findPotentialDuplicates (withIndex followUps)) = {(0, 1)}
   \<and> (0, 1) \<in> {(i, j). i < j \<and> j < length (withIndex followUps) \<and>
        exceeds (calculateSimilarity (title (withIndex followUps ! i))
                   (title (withIndex followUps ! j))) (6 / 10)}"
proof -
  have eq: "set (findPotentialDuplicates (withIndex followUps)) = {(0, 1)}"
    by (simp add: followUps_pairs)
  from findPotentialDuplicates_pairs [of "withIndex followUps"]
  have char: "set (findPotentialDuplicates (withIndex followUps)) =
        {(i, j). i < j \<and> j < length (withIndex followUps) \<and>
        exceeds (calculateSimilarity (title (withIndex followUps ! i))
                   (title (withIndex followUps ! j))) (6 / 10)}"
    by blast
  have "(0, 1) \<in> set (findPotentialDuplicates (withIndex followUps))"
    by (simp add: followUps_pairs)
  then have "(0, 1) \<in> {(i, j). i < j \<and> j < length (withIndex followUps) \<and>
        exceeds (calculateSimilarity (title (withIndex followUps ! i))
                   (title (withIndex followUps ! j))) (6 / 10)}"
    unfolding char .
  with eq show ?thesis by (rule conjI)
qed

text \<open>Claim C7 as stated says that the pair is admitted because the containment shortcut
  fires. It does not: neither normalized title contains the other.\<close>

theorem findPotentialDuplicates_containment_counterexample:
  "\<not> (includes_str (normalized ''Schedule demo call'') (normalized ''Schedule a demo call'')
      \<or> includes_str (normalized ''Schedule a demo call'') (normalized ''Schedule demo call''))"
  by code_simp

lemma set_checkAgainstClickUp:
  "set (checkAgainstClickUp batch cache) =
     {\<lparr>extractedTaskIndex = i, clickupTaskId = entryId e,
       similarity = calculateSimilarity (title (batch ! i)) (entryTitle e)\<rparr> | i e.
        i < length batch \<and> e \<in> set cache \<and>
        exceeds (calculateSimilarity (title (batch ! i)) (entryTitle e)) (75 / 100)}"
  unfolding checkAgainstClickUp_def Let_def by (auto split: if_splits)

text \<open>
  Claim C8. \<open>checkAgainstClickUp\<close> returns exactly the matches of a batch index \<open>i\<close> with
  a cache entry whose title similarity to \<open>batch[i].title\<close> exceeds 0.75, each with that
  similarity and the entry's id. It only reads the batch: the matches are its whole output.
  For the cache entry "Update onboarding doc" and the batch task "Update onboarding docs" the
  similarity is \<open>21/22 > 0.75\<close> and the pair is returned.
\<close>

theorem checkAgainstClickUp_matches:
  "set (checkAgainstClickUp batch cache) =
     {\<lparr>extractedTaskIndex = i, clickupTaskId = entryId e,
       similarity = calculateSimilarity (title (batch ! i)) (entryTitle e)\<rparr> | i e.
        i < length batch \<and> e \<in> set cache \<and>
        exceeds (calculateSimilarity (title (batch ! i)) (entryTitle e)) (75 / 100)}
   \<and> exceeds (calculateSimilarity ''Update onboarding docs'' ''Update onboarding doc'') (75 / 100)
   \<and> checkAgainstClickUp [demoTask ''Update onboarding docs'']
        [\<lparr>entryTitle = ''Update onboarding doc'', entryId = ''86c1''\<rparr>]
      = [\<lparr>extractedTaskIndex = 0, clickupTaskId = ''86c1'', similarity = Some (21 / 22)\<rparr>]"
proof -
  have "exceeds (calculateSimilarity ''Update onboarding docs'' ''Update onboarding doc'') (75 / 100)"
    by code_simp
  moreover have "checkAgainstClickUp [demoTask ''Update onboarding docs'']
        [\<lparr>entryTitle = ''Update onboarding doc'', entryId = ''86c1''\<rparr>]
      = [\<lparr>extractedTaskIndex = 0, clickupTaskId = ''86c1'', similarity = Some (21 / 22)\<rparr>]"
    by code_simp
  ultimately show ?thesis
    using set_checkAgainstClickUp [of batch cache] by (simp only: simp_thms)
qed

theorem checkAgainstClickUp_matches_witness:
  "set (checkAgainstClickUp unrelated [\<lparr>entryTitle = ''Schedule a demo call'', entryId = ''86c2''\<rparr>])
   = {\<lparr>extractedTaskIndex = 0, clickupTaskId = ''86c2'', similarity = Some (9 / 10)\<rparr>}"
proof -
  have "checkAgainstClickUp unrelated [\<lparr>entryTitle = ''Schedule a demo call'', entryId = ''86c2''\<rparr>]
        = [\<lparr>extractedTaskIndex = 0, clickupTaskId = ''86c2'', similarity = Some (9 / 10)\<rparr>]"
    by code_simp
  with checkAgainstClickUp_matches
         [of unrelated "[\<lparr>entryTitle = ''Schedule a demo call'', entryId = ''86c2''\<rparr>]"]
  show ?thesis by simp
qed

subsection \<open>deduplicateTasks: exceptions and the early return\<close>

lemma getAnthropicClient_cases:
  "clientAvailable w \<Longrightarrow> \<exists>w1. getAnthropicClient w = Inr w1 \<and> requests w1 = requests w"
  "\<not> clientAvailable w \<Longrightarrow> getAnthropicClient w = Inl MissingApiKey"
  by (auto simp: clientAvailable_def getAnthropicClient_def split: option.splits)

lemma deduplicateTasks_empty:
  "deduplicateTasks parse reply w [] = (Inr (noDuplicates []), w)"
  by (simp add: deduplicateTasks_def noDuplicates_def)

lemma deduplicateTasks_keyless:
  "batch \<noteq> [] \<Longrightarrow> \<not> clientAvailable w \<Longrightarrow>
   deduplicateTasks parse reply w batch = (Inl MissingApiKey, w)"
  by (simp add: deduplicateTasks_def getAnthropicClient_cases)

lemma deduplicateTasks_returns:
  assumes "batch = [] \<or> clientAvailable w"
  shows "\<exists>r. fst (deduplicateTasks parse reply w batch) = Inr r"
proof (cases "batch = []")
  case True
  then show ?thesis by (simp add: deduplicateTasks_empty)
next
  case False
  with assms obtain w1 where "getAnthropicClient w = Inr w1"
    using getAnthropicClient_cases(1) by blast
  with False show ?thesis
    by (auto simp: deduplicateTasks_def Let_def split: prod.splits sum.splits)
qed

text \<open>
  Claim C1, as amended. For every batch and every behaviour of the model service,
  \<open>deduplicateTasks\<close> throws to its caller only the configuration error of
  \<open>getAnthropicClient\<close>, and only when the batch is not empty, no client was constructed
  before and \<open>ANTHROPIC_API_KEY\<close> is unset or empty. In every other case each failure of the
  request and of the parsing is absorbed and a result is returned.
\<close>

theorem deduplicateTasks_throws_iff:
  "(fst (deduplicateTasks parse reply w batch) = Inl e)
   = (batch \<noteq> [] \<and> \<not> clientAvailable w \<and> e = MissingApiKey)"
proof (cases "batch = [] \<or> clientAvailable w")
  case True
  from deduplicateTasks_returns [OF this, of parse reply]
  obtain r where "fst (deduplicateTasks parse reply w batch) = Inr r" by blast
  with True show ?thesis by auto
next
  case False
  then show ?thesis by (auto simp: deduplicateTasks_keyless)
qed

theorem deduplicateTasks_throws_iff_witness:
  "fst (deduplicateTasks sampleParse Rejected freshWorld followUps) \<noteq> Inl RequestFailed
   \<and> fst (deduplicateTasks sampleParse Rejected keylessWorld followUps) = Inl MissingApiKey"
proof -
  have "followUps \<noteq> []" "clientAvailable freshWorld" "\<not> clientAvailable keylessWorld"
    by (simp_all add: followUps_def clientAvailable_def freshWorld_def keylessWorld_def)
  with deduplicateTasks_throws_iff [of sampleParse Rejected freshWorld followUps RequestFailed]
       deduplicateTasks_throws_iff [of sampleParse Rejected keylessWorld followUps MissingApiKey]
  show ?thesis by simp
qed

text \<open>Claim C1 as stated fails when the key is unset: the call of \<open>getAnthropicClient\<close>
  stands before the \<open>try\<close> block.\<close>

theorem deduplicateTasks_throws_counterexample:
  "fst (deduplicateTasks sampleParse (Message [TextBlock forwardText]) keylessWorld followUps)
   = Inl MissingApiKey"
  by (simp add: deduplicateTasks_def getAnthropicClient_def keylessWorld_def followUps_def)

lemma deduplicateTasks_no_pairs:
  assumes "findPotentialDuplicates (withIndex batch) = []"
  shows "requests (snd (deduplicateTasks parse reply w batch)) = requests w"
    and "batch = [] \<or> clientAvailable w \<Longrightarrow>
         fst (deduplicateTasks parse reply w batch) = Inr (noDuplicates batch)"
proof -
  show "requests (snd (deduplicateTasks parse reply w batch)) = requests w"
  proof (cases "batch = [] \<or> \<not> clientAvailable w")
    case True
    show ?thesis
    proof (cases "batch = []")
      case True
      then show ?thesis by (simp add: deduplicateTasks_empty)
    next
      case False
      with True show ?thesis by (simp add: deduplicateTasks_keyless)
    qed
  next
    case False
    then obtain w1 where "getAnthropicClient w = Inr w1" "requests w1 = requests w"
      using getAnthropicClient_cases(1) by blast
    with False assms show ?thesis by (simp add: deduplicateTasks_def)
  qed
  assume "batch = [] \<or> clientAvailable w"
  then show "fst (deduplicateTasks parse reply w batch) = Inr (noDuplicates batch)"
  proof
    assume "batch = []"
    then show ?thesis by (simp add: deduplicateTasks_empty)
  next
    assume "clientAvailable w"
    then obtain w1 where "getAnthropicClient w = Inr w1"
      using getAnthropicClient_cases(1) by blast
    with assms show ?thesis by (simp add: deduplicateTasks_def noDuplicates_def)
  qed
qed

lemma plainTask_flatten:
  "map plainTask (flattenMeetings ms) = concat (map tasks ms)"
proof -
  have "map plainTask
          (map (\<lambda>(i, (t, m)). \<lparr>title = title t, description = description t,
                                 priority = priority t, dueDate = dueDate t, index = i,
                                 source = Some m\<rparr>) (enumerate n xs)) = map fst xs"
    for n and xs :: "(Task \<times> string) list"
    by (induction xs arbitrary: n) (simp_all add: plainTask_def case_prod_unfold)
  moreover have "map fst (concat (map (\<lambda>meeting. map (\<lambda>t. (t, meetingTitle meeting)) (tasks meeting)) ms))
        = concat (map tasks ms)"
    by (induction ms) (simp_all add: comp_def)
  ultimately show ?thesis
    by (simp only: flattenMeetings_def)
qed

lemma unmerged_flatten:
  "unmerged (flattenMeetings ms) = map Kept (concat (map tasks ms))"
proof -
  have "unmerged (flattenMeetings ms) = map Kept (map plainTask (flattenMeetings ms))"
    by (simp add: unmerged_def)
  then show ?thesis by (simp only: plainTask_flatten)
qed

lemma mergeSimilarTasks_no_pairs:
  assumes "findPotentialDuplicates (flattenMeetings ms) = []"
  shows "mergeSimilarTasks parse reply w ms = (Inr (map Kept (concat (map tasks ms))), w)"
  using assms by (simp add: mergeSimilarTasks_def Let_def unmerged_flatten)

text \<open>
  Claim C2. When the batch has no candidate pair, \<open>deduplicateTasks\<close> is to send no request
  and to return the batch unchanged as \<open>uniqueTasks\<close>, with no duplicates and
  \<open>totalDuplicates = 0\<close>, and \<open>mergeSimilarTasks\<close> likewise is to return the flattened tasks
  unchanged. The source departs from this for \<open>deduplicateTasks\<close>: it asks for the client
  before it computes the candidate pairs. On two unrelated tasks, with no client constructed
  and no key set, there is no candidate pair and no request is sent, yet \<open>deduplicateTasks\<close>
  throws the configuration error, while \<open>mergeSimilarTasks\<close> on the same two tasks returns
  them unchanged.
\<close>

theorem no_candidate_pairs_keyless:
  "findPotentialDuplicates (withIndex unrelated) = []
   \<and> deduplicateTasks sampleParse Rejected keylessWorld unrelated
     = (Inl MissingApiKey, keylessWorld)
   \<and> mergeSimilarTasks sampleParse Rejected keylessWorld
        [\<lparr>meetingTitle = ''Weekly sync'', tasks = unrelated\<rparr>]
     = (Inr (map Kept unrelated), keylessWorld)"
proof -
  have flat: "findPotentialDuplicates
                (flattenMeetings [\<lparr>meetingTitle = ''Weekly sync'', tasks = unrelated\<rparr>]) = []"
    by code_simp
  have "deduplicateTasks sampleParse Rejected keylessWorld unrelated
        = (Inl MissingApiKey, keylessWorld)"
    by (simp add: deduplicateTasks_def getAnthropicClient_def keylessWorld_def unrelated_def)
  moreover have "mergeSimilarTasks sampleParse Rejected keylessWorld
        [\<lparr>meetingTitle = ''Weekly sync'', tasks = unrelated\<rparr>]
     = (Inr (map Kept unrelated), keylessWorld)"
    using mergeSimilarTasks_no_pairs [OF flat, of sampleParse Rejected keylessWorld] by simp
  ultimately show ?thesis using unrelated_pairs by simp
qed

subsection \<open>deduplicateTasks: malformed responses\<close>

lemma dedupFromContent_malformed:
  assumes "malformedResponse parse (Message content)"
  shows "dedupFromContent parse batch twm content = Inr r \<Longrightarrow> r = noDuplicates batch"
proof (cases content)
  case Nil
  then show "dedupFromContent parse batch twm content = Inr r \<Longrightarrow> r = noDuplicates batch"
    by (simp add: dedupFromContent_def)
next
  case (Cons blk rest)
  show "dedupFromContent parse batch twm content = Inr r \<Longrightarrow> r = noDuplicates batch"
  proof (cases blk)
    case OtherBlock
    with Cons show "dedupFromContent parse batch twm content = Inr r \<Longrightarrow> r = noDuplicates batch"
      by (simp add: dedupFromContent_def)
  next
    case (TextBlock body)
    with Cons assms have m: "malformedReply parse body"
      by (simp add: malformedResponse_def)
    assume run: "dedupFromContent parse batch twm content = Inr r"
    show "r = noDuplicates batch"
    proof (cases "json_match body")
      case None
      with run Cons TextBlock show ?thesis by (simp add: dedupFromContent_def)
    next
      case matched: (Some payload)
      show ?thesis
      proof (cases "parse payload")
        case None
        with run Cons TextBlock matched show ?thesis by (simp add: dedupFromContent_def)
      next
        case (Some parsed)
        with m matched have na: "\<not> isArray (member parsed ''duplicates'')"
          by (simp add: malformedReply_def)
        have unfolded: "(case get_prop parsed ''duplicates'' of
                 Inl e \<Rightarrow> Inl e
               | Inr dups \<Rightarrow>
                   if \<not> truthy dups \<or> \<not> isArray dups then Inr (noDuplicates batch)
                   else
                     (case iterate dups of
                        Inl e \<Rightarrow> Inl e
                      | Inr entries \<Rightarrow>
                        (case mapDuplicates entries of
                           Inl e \<Rightarrow> Inl e
                         | Inr dupl \<Rightarrow>
                             let duplicateIndices = map taskIndex dupl;
                                 uniq = map plainTask
                                          (filter (\<lambda>t. \<not> has duplicateIndices (index t))
                                                  twm)
                             in Inr \<lparr>duplicates = dupl, uniqueTasks = uniq,
                                     totalDuplicates = length dupl\<rparr>))) = Inr r"
          using run Cons TextBlock matched Some by (simp add: dedupFromContent_def)
        show ?thesis
        proof (cases parsed)
          case (JObj members)
          with na have "\<not> isArray (map_of members ''duplicates'')" by (simp add: member_def)
          with unfolded JObj show ?thesis by (simp split: if_splits)
        next
          case JNull
          with unfolded show ?thesis by simp
        next
          case (JBool b)
          with unfolded show ?thesis by simp
        next
          case (JNum x)
          with unfolded show ?thesis by simp
        next
          case (JStr x)
          with unfolded show ?thesis by simp
        next
          case (JArr x)
          with unfolded show ?thesis by simp
        qed
      qed
    qed
  qed
qed

lemma request_sent:
  assumes "requests (snd (deduplicateTasks parse reply w batch)) = requests w + 1"
  shows "batch \<noteq> []" and "clientAvailable w"
proof -
  show "batch \<noteq> []"
    using assms by (auto simp: deduplicateTasks_empty)
  show "clientAvailable w"
  proof (rule ccontr)
    assume "\<not> clientAvailable w"
    with \<open>batch \<noteq> []\<close> have "deduplicateTasks parse reply w batch = (Inl MissingApiKey, w)"
      by (rule deduplicateTasks_keyless)
    with assms show False by simp
  qed
qed

lemma deduplicateTasks_malformed_aux:
  assumes "batch = [] \<or> clientAvailable w" and "malformedResponse parse reply"
  shows "fst (deduplicateTasks parse reply w batch) = Inr (noDuplicates batch)"
proof (cases "batch = []")
  case True
  then show ?thesis by (simp add: deduplicateTasks_empty)
next
  case False
  with assms obtain w1 where w1: "getAnthropicClient w = Inr w1"
    using getAnthropicClient_cases(1) by blast
  from assms(2) obtain content where reply: "reply = Message content"
    by (cases reply) (simp_all add: malformedResponse_def)
  have "dedupFromContent parse batch (withIndex batch) content = Inr r \<Longrightarrow> r = noDuplicates batch" for r
    using dedupFromContent_malformed assms(2) reply by blast
  then show ?thesis
    using False w1 reply
    by (auto simp: deduplicateTasks_def Let_def messages_create_def split: sum.splits)
qed

text \<open>
  Claim C3. For every batch: if the request was sent and the response holds no payload, or
  the payload does not parse, or the duplicates field of the parsed value is absent or not a
  list, then \<open>deduplicateTasks\<close> returns, with \<open>uniqueTasks\<close> the whole batch,
  \<open>totalDuplicates = 0\<close> and no duplicates; no exception reaches the caller.
\<close>

theorem deduplicateTasks_malformed:
  assumes "requests (snd (deduplicateTasks parse reply w batch)) = requests w + 1"
    and "malformedResponse parse reply"
  shows "\<exists>r. fst (deduplicateTasks parse reply w batch) = Inr r
             \<and> uniqueTasks r = batch \<and> totalDuplicates r = 0 \<and> duplicates r = []"
  using deduplicateTasks_malformed_aux [of batch w parse reply] request_sent [OF assms(1)] assms(2)
  by (simp add: noDuplicates_def)

theorem deduplicateTasks_malformed_witness:
  "\<exists>r. fst (deduplicateTasks sampleParse (Message [TextBlock ''I found no duplicates.'']) freshWorld followUps) = Inr r
             \<and> uniqueTasks r = followUps \<and> totalDuplicates r = 0 \<and> duplicates r = []"
proof -
  have sent: "requests (snd (deduplicateTasks sampleParse (Message [TextBlock ''I found no duplicates.'']) freshWorld followUps))
     = requests freshWorld + 1"
    by code_simp
  have mal: "malformedResponse sampleParse (Message [TextBlock ''I found no duplicates.''])"
    by code_simp
  from deduplicateTasks_malformed [OF sent mal] show ?thesis .
qed

subsection \<open>deduplicateTasks: the shape of the result\<close>

lemma get_prop_member: "d \<noteq> JNull \<Longrightarrow> get_prop d name = Inr (member d name)"
  by (cases d) (simp_all add: member_def)

lemma get_prop_Inr: "get_prop d name = Inr v \<Longrightarrow> v = member d name \<and> d \<noteq> JNull"
  by (cases d) (auto simp: member_def)

lemma toDuplicateMatch_Inr:
  "toDuplicateMatch dup = Inr d \<Longrightarrow>
   taskIndex d = member dup ''taskIndex'' \<and> duplicateOfIndex d = member dup ''duplicateOfIndex''"
  by (cases "dup = JNull") (auto simp: toDuplicateMatch_def get_prop_member)

lemma mapDuplicates_Inr:
  "mapDuplicates entries = Inr dupl \<Longrightarrow>
   map taskIndex dupl = map (\<lambda>d. member d ''taskIndex'') entries
   \<and> map duplicateOfIndex dupl = map (\<lambda>d. member d ''duplicateOfIndex'') entries"
proof (induction entries arbitrary: dupl)
  case Nil
  then show ?case by simp
next
  case (Cons dup entries)
  then obtain d ds where "toDuplicateMatch dup = Inr d" "mapDuplicates entries = Inr ds" "dupl = d # ds"
    by (auto split: sum.splits)
  with Cons.IH [of ds] toDuplicateMatch_Inr [of dup d] show ?case by simp
qed

lemma isArray_iff: "isArray v = (\<exists>xs. v = Some (JArr xs))"
  by (cases v rule: isArray.cases) simp_all

lemma dedupFromContent_Inr:
  assumes "dedupFromContent parse batch twm content = Inr r"
  shows "r = noDuplicates batch \<or>
         (\<exists>entries dupl. replyDuplicates parse (Message content) = entries \<and> mapDuplicates entries = Inr dupl
            \<and> r = \<lparr>duplicates = dupl,
                    uniqueTasks = map plainTask
                      (filter (\<lambda>t. \<not> has (map taskIndex dupl) (index t)) twm),
                    totalDuplicates = length dupl\<rparr>)"
proof (cases content)
  case Nil
  with assms show ?thesis by (simp add: dedupFromContent_def)
next
  case (Cons blk rest)
  show ?thesis
  proof (cases blk)
    case OtherBlock
    with assms Cons show ?thesis by (simp add: dedupFromContent_def)
  next
    case (TextBlock body)
    show ?thesis
    proof (cases "json_match body")
      case None
      with assms Cons TextBlock show ?thesis by (simp add: dedupFromContent_def)
    next
      case matched: (Some payload)
      show ?thesis
      proof (cases "parse payload")
        case None
        with assms Cons TextBlock matched show ?thesis by (simp add: dedupFromContent_def)
      next
        case (Some parsed)
        show ?thesis
        proof (cases "get_prop parsed ''duplicates''")
          case (Inl e)
          with assms Cons TextBlock matched Some show ?thesis
            by (simp add: dedupFromContent_def)
        next
          case (Inr dups)
          then have dups: "dups = member parsed ''duplicates''"
            using get_prop_Inr by blast
          show ?thesis
          proof (cases "isArray dups")
            case False
            with assms Cons TextBlock matched Some Inr show ?thesis
              by (simp add: dedupFromContent_def)
          next
            case True
            then obtain entries where e: "dups = Some (JArr entries)"
              using isArray_iff by blast
            from e dups have "member parsed ''duplicates'' = Some (JArr entries)"
              by simp
            with Cons TextBlock matched Some
            have acc: "replyDuplicates parse (Message content) = entries"
              by (simp add: replyDuplicates_def)
            from assms Cons TextBlock matched Some Inr e
            obtain dupl where "mapDuplicates entries = Inr dupl"
              and "r = \<lparr>duplicates = dupl,
                    uniqueTasks = map plainTask
                      (filter (\<lambda>t. \<not> has (map taskIndex dupl) (index t)) twm),
                    totalDuplicates = length dupl\<rparr>"
              by (auto simp: dedupFromContent_def Let_def split: sum.splits)
            with acc show ?thesis by blast
          qed
        qed
      qed
    qed
  qed
qed

lemma deduplicateTasks_Inr:
  assumes "fst (deduplicateTasks parse reply w batch) = Inr r"
  shows "r = noDuplicates batch \<or>
         (\<exists>content entries dupl. reply = Message content \<and> replyDuplicates parse (Message content) = entries
            \<and> mapDuplicates entries = Inr dupl
            \<and> r = \<lparr>duplicates = dupl,
                    uniqueTasks = map plainTask
                      (filter (\<lambda>t. \<not> has (map taskIndex dupl) (index t)) (withIndex batch)),
                    totalDuplicates = length dupl\<rparr>)"
proof (cases "batch = []")
  case True
  with assms show ?thesis by (simp add: deduplicateTasks_empty)
next
  case False
  show ?thesis
  proof (cases "getAnthropicClient w")
    case (Inl e)
    with assms False show ?thesis by (simp add: deduplicateTasks_def)
  next
    case (Inr w1)
    show ?thesis
    proof (cases "findPotentialDuplicates (withIndex batch) = []")
      case True
      with assms False Inr show ?thesis by (simp add: deduplicateTasks_def)
    next
      case pairs: False
      show ?thesis
      proof (cases reply)
        case Rejected
        with assms False Inr pairs show ?thesis
          by (simp add: deduplicateTasks_def messages_create_def)
      next
        case (Message content)
        show ?thesis
        proof (cases "dedupFromContent parse batch (withIndex batch) content")
          case (Inl e)
          with assms False Inr pairs Message show ?thesis
            by (simp add: deduplicateTasks_def messages_create_def)
        next
          case res: (Inr res)
          with assms False Inr pairs Message have "r = res"
            by (simp add: deduplicateTasks_def messages_create_def)
          with dedupFromContent_Inr [OF res] Message show ?thesis by blast
        qed
      qed
    qed
  qed
qed

lemma withIndex_filter:
  "map plainTask (filter (\<lambda>t. P (index t)) (withIndex batch))
   = map snd (filter (\<lambda>(i, t). P i) (enumerate 0 batch))"
proof -
  have "map plainTask (filter (\<lambda>t. P (index t))
          (map (\<lambda>(i, t). \<lparr>title = title t, description = description t, priority = priority t,
                     dueDate = dueDate t, index = i, source = None\<rparr>) xs))
        = map snd (filter (\<lambda>(i, t). P i) xs)" for xs :: "(nat \<times> Task) list"
    by (induction xs) (auto simp: plainTask_def)
  then show ?thesis by (simp add: withIndex_def)
qed

lemma count_unmarked:
  assumes "distinct D" and "\<forall>v \<in> set D. \<exists>i < n. v = Some (JNum (of_nat i))"
  shows "length (filter (\<lambda>i. \<not> has D i) [0..<n]) + length D = n"
proof -
  let ?f = "\<lambda>i::nat. Some (JNum (of_nat i))"
  have inj: "inj_on ?f {i. i < n \<and> has D i}"
    by (simp add: inj_on_def)
  have img: "?f ` {i. i < n \<and> has D i} = set D"
    using assms(2) by (auto simp: has_def)
  have "card {i. i < n \<and> has D i} = card (set D)"
    using card_image [OF inj] img by simp
  then have marked: "card {i. i < n \<and> has D i} = length D"
    using assms(1) by (simp add: distinct_card)
  have "length (filter (\<lambda>i. \<not> has D i) [0..<n]) + length (filter (\<lambda>i. has D i) [0..<n]) = n"
    using sum_length_filter_compl [of "\<lambda>i. has D i" "[0..<n]"] by simp
  moreover have "{x. has D x} \<inter> set [0..<n] = {i. i < n \<and> has D i}"
    by auto
  then have "length (filter (\<lambda>i. has D i) [0..<n]) = card {i. i < n \<and> has D i}"
    using distinct_length_filter [of "[0..<n]" "\<lambda>i. has D i"] by simp
  ultimately show ?thesis using marked by simp
qed

lemma length_filter_enumerate:
  "length (filter (\<lambda>(i, t). P i) (enumerate 0 batch)) = length (filter P [0..<length batch])"
proof -
  have "length (filter (\<lambda>(i, t). P i) (enumerate 0 batch))
        = length (filter P (map fst (enumerate 0 batch)))"
    by (simp only: filter_map length_map comp_def case_prod_unfold)
  then show ?thesis by simp
qed

lemma forward_run:
  "fst (deduplicateTasks sampleParse (Message [TextBlock forwardText]) freshWorld followUps)
   = Inr \<lparr>duplicates = [\<lparr>taskIndex = Some (JNum 1), duplicateOfIndex = Some (JNum 0),
                          reason = JStr ''Identified as duplicate''\<rparr>],
          uniqueTasks = [demoTask ''Send follow-up email''], totalDuplicates = 1\<rparr>"
  by code_simp

text \<open>
  Claim C9. Every result that \<open>deduplicateTasks\<close> returns is consistent: \<open>totalDuplicates\<close>
  is the length of \<open>duplicates\<close>, and \<open>uniqueTasks\<close> holds, in the order of the input, exactly
  the tasks whose index is not the \<open>taskIndex\<close> of a duplicate. When the reported \<open>taskIndex\<close>
  values are distinct indices of the batch, the duplicates and the unique tasks together
  count every task of the input once.
\<close>

theorem deduplicateTasks_consistent:
  assumes "fst (deduplicateTasks parse reply w batch) = Inr r"
  shows "totalDuplicates r = length (duplicates r)
    \<and> uniqueTasks r =
        map snd (filter (\<lambda>(i, t). \<not> has (map taskIndex (duplicates r)) i) (enumerate 0 batch))
    \<and> (distinct (map taskIndex (duplicates r))
        \<and> (\<forall>d \<in> set (duplicates r). \<exists>i < length batch. taskIndex d = Some (JNum (of_nat i)))
       \<longrightarrow> length (uniqueTasks r) + length (duplicates r) = length batch)"
proof -
  have shape: "totalDuplicates r = length (duplicates r)
    \<and> uniqueTasks r =
        map snd (filter (\<lambda>(i, t). \<not> has (map taskIndex (duplicates r)) i) (enumerate 0 batch))"
  proof -
    have none: "map snd (filter (\<lambda>(i, t). \<not> has [] i) (enumerate 0 batch)) = batch"
      by (simp add: has_def)
    from deduplicateTasks_Inr [OF assms] show ?thesis
    proof (elim disjE exE conjE)
      assume "r = noDuplicates batch"
      with none show ?thesis by (simp add: noDuplicates_def)
    next
      fix content entries dupl
      assume "r = \<lparr>duplicates = dupl,
                    uniqueTasks = map plainTask
                      (filter (\<lambda>t. \<not> has (map taskIndex dupl) (index t)) (withIndex batch)),
                    totalDuplicates = length dupl\<rparr>"
      then show ?thesis
        using withIndex_filter [of "\<lambda>i. \<not> has (map taskIndex dupl) i" batch] by simp
    qed
  qed
  have "length (uniqueTasks r) + length (duplicates r) = length batch"
    if d: "distinct (map taskIndex (duplicates r))"
    and rng: "\<forall>d \<in> set (duplicates r). \<exists>i < length batch. taskIndex d = Some (JNum (of_nat i))"
  proof -
    from rng have "\<forall>v \<in> set (map taskIndex (duplicates r)). \<exists>i < length batch. v = Some (JNum (of_nat i))"
      by auto
    from count_unmarked [OF d this] shape show ?thesis
      by (simp add: length_filter_enumerate)
  qed
  with shape show ?thesis by blast
qed

theorem deduplicateTasks_consistent_witness:
  "\<exists>r. fst (deduplicateTasks sampleParse (Message [TextBlock forwardText]) freshWorld followUps)
          = Inr r
        \<and> totalDuplicates r = length (duplicates r)
        \<and> length (uniqueTasks r) + length (duplicates r) = length followUps"
proof -
  let ?r = "\<lparr>duplicates = [\<lparr>taskIndex = Some (JNum 1), duplicateOfIndex = Some (JNum 0),
                             reason = JStr ''Identified as duplicate''\<rparr>],
             uniqueTasks = [demoTask ''Send follow-up email''], totalDuplicates = 1\<rparr>"
  note inst = deduplicateTasks_consistent [OF forward_run]
  have "\<exists>i < length followUps. Some (JNum 1) = Some (JNum (of_nat i))"
    by (rule exI [of _ 1]) (simp add: followUps_def)
  then have prem: "distinct (map taskIndex (duplicates ?r))
      \<and> (\<forall>d \<in> set (duplicates ?r). \<exists>i < length followUps. taskIndex d = Some (JNum (of_nat i)))"
    by simp
  from inst prem
  have "totalDuplicates ?r = length (duplicates ?r)
        \<and> length (uniqueTasks ?r) + length (duplicates ?r) = length followUps"
    by blast
  with forward_run show ?thesis by blast
qed

lemma toDuplicateMatch_total: "dup \<noteq> JNull \<Longrightarrow> \<exists>d. toDuplicateMatch dup = Inr d"
  by (simp add: toDuplicateMatch_def get_prop_member)

lemma mapDuplicates_total: "JNull \<notin> set entries \<Longrightarrow> \<exists>dupl. mapDuplicates entries = Inr dupl"
proof (induction entries)
  case Nil
  then show ?case by simp
next
  case (Cons dup entries)
  then obtain d ds where "toDuplicateMatch dup = Inr d" "mapDuplicates entries = Inr ds"
    using toDuplicateMatch_total [of dup] by auto
  then show ?case by simp
qed

lemma mapDuplicates_pairs:
  "mapDuplicates entries = Inr dupl \<Longrightarrow> indexPairs dupl = entryPairs entries"
proof (induction entries arbitrary: dupl)
  case Nil
  then show ?case by (simp add: indexPairs_def entryPairs_def)
next
  case (Cons dup entries)
  then obtain d ds where
    "toDuplicateMatch dup = Inr d" "mapDuplicates entries = Inr ds" "dupl = d # ds"
    by (auto split: sum.splits)
  with Cons.IH [of ds] toDuplicateMatch_Inr [of dup d] show ?case
    by (simp add: indexPairs_def entryPairs_def)
qed

lemma dedupFromContent_forward:
  assumes "JNull \<notin> set (replyDuplicates parse (Message content))"
  shows "indexPairs (duplicates (absorbed batch (dedupFromContent parse batch twm content)))
         = entryPairs (replyDuplicates parse (Message content))"
proof (cases content)
  case Nil
  then show ?thesis
    by (simp add: dedupFromContent_def replyDuplicates_def absorbed_def noDuplicates_def
          indexPairs_def entryPairs_def)
next
  case (Cons blk rest)
  show ?thesis
  proof (cases blk)
    case OtherBlock
    with Cons show ?thesis
      by (simp add: dedupFromContent_def replyDuplicates_def absorbed_def noDuplicates_def
            indexPairs_def entryPairs_def)
  next
    case (TextBlock body)
    show ?thesis
    proof (cases "json_match body")
      case None
      with Cons TextBlock show ?thesis
        by (simp add: dedupFromContent_def replyDuplicates_def absorbed_def noDuplicates_def
              indexPairs_def entryPairs_def)
    next
      case matched: (Some payload)
      show ?thesis
      proof (cases "parse payload")
        case None
        with Cons TextBlock matched show ?thesis
          by (simp add: dedupFromContent_def replyDuplicates_def absorbed_def noDuplicates_def
                indexPairs_def entryPairs_def)
      next
        case (Some parsed)
        have rd: "replyDuplicates parse (Message content)
                  = (case member parsed ''duplicates'' of Some (JArr entries) \<Rightarrow> entries | _ \<Rightarrow> [])"
          using Cons TextBlock matched Some by (simp add: replyDuplicates_def)
        have body: "dedupFromContent parse batch twm content =
              (case get_prop parsed ''duplicates'' of
                 Inl e \<Rightarrow> Inl e
               | Inr dups \<Rightarrow>
                   if \<not> truthy dups \<or> \<not> isArray dups then Inr (noDuplicates batch)
                   else
                     (case iterate dups of
                        Inl e \<Rightarrow> Inl e
                      | Inr entries \<Rightarrow>
                        (case mapDuplicates entries of
                           Inl e \<Rightarrow> Inl e
                         | Inr dupl \<Rightarrow>
                             let duplicateIndices = map taskIndex dupl;
                                 uniq = map plainTask
                                          (filter (\<lambda>t. \<not> has duplicateIndices (index t))
                                                  twm)
                             in Inr \<lparr>duplicates = dupl, uniqueTasks = uniq,
                                     totalDuplicates = length dupl\<rparr>)))"
          using Cons TextBlock matched Some by (simp add: dedupFromContent_def)
        show ?thesis
        proof (cases "parsed = JNull")
          case True
          then show ?thesis
            unfolding body rd
            by (simp add: member_def absorbed_def noDuplicates_def indexPairs_def entryPairs_def)
        next
          case False
          note gp = get_prop_member [OF False, of "''duplicates''"]
          show ?thesis
          proof (cases "isArray (member parsed ''duplicates'')")
            case False
            then have "(case member parsed ''duplicates'' of Some (JArr entries) \<Rightarrow> entries | _ \<Rightarrow> []) = []"
              by (auto simp: isArray_iff split: option.splits json.splits)
            with False show ?thesis
              unfolding body rd gp
              by (simp add: absorbed_def noDuplicates_def indexPairs_def entryPairs_def)
          next
            case True
            then obtain entries where e: "member parsed ''duplicates'' = Some (JArr entries)"
              using isArray_iff by blast
            with assms rd have "JNull \<notin> set entries" by simp
            from mapDuplicates_total [OF this] obtain dupl where
              d: "mapDuplicates entries = Inr dupl" by blast
            from mapDuplicates_pairs [OF d] show ?thesis
              unfolding body rd gp e by (simp add: d absorbed_def)
          qed
        qed
      qed
    qed
  qed
qed

lemma deduplicateTasks_forward:
  assumes "batch \<noteq> []" "clientAvailable w" "findPotentialDuplicates (withIndex batch) \<noteq> []"
    and "JNull \<notin> set (replyDuplicates parse reply)"
  shows "\<exists>r. fst (deduplicateTasks parse reply w batch) = Inr r
             \<and> indexPairs (duplicates r) = entryPairs (replyDuplicates parse reply)"
proof -
  from assms(2) obtain w1 where w1: "getAnthropicClient w = Inr w1"
    using getAnthropicClient_cases(1) by blast
  show ?thesis
  proof (cases reply)
    case Rejected
    with assms(1,3) w1 show ?thesis
      by (simp add: deduplicateTasks_def messages_create_def replyDuplicates_def
            noDuplicates_def indexPairs_def entryPairs_def)
  next
    case (Message content)
    have "fst (deduplicateTasks parse reply w batch)
          = Inr (absorbed batch (dedupFromContent parse batch (withIndex batch) content))"
      using assms(1,3) w1 Message
      by (simp add: deduplicateTasks_def messages_create_def absorbed_def split: sum.splits)
    with dedupFromContent_forward [of parse content batch "withIndex batch"] assms(4) Message
    show ?thesis by simp
  qed
qed

lemma reversed_run:
  "fst (deduplicateTasks sampleParse (Message [TextBlock reversedText]) freshWorld followUps)
   = Inr \<lparr>duplicates = [\<lparr>taskIndex = Some (JNum 0), duplicateOfIndex = Some (JNum 1),
                          reason = JStr ''same follow-up''\<rparr>],
          uniqueTasks = [demoTask ''Send follow-up email''], totalDuplicates = 1\<rparr>"
  by code_simp

lemma chained_run:
  "fst (deduplicateTasks sampleParse (Message [TextBlock chainedText]) freshWorld threeFollowUps)
   = Inr \<lparr>duplicates =
            [\<lparr>taskIndex = Some (JNum 2), duplicateOfIndex = Some (JNum 1),
              reason = JStr ''Identified as duplicate''\<rparr>,
             \<lparr>taskIndex = Some (JNum 1), duplicateOfIndex = Some (JNum 0),
              reason = JStr ''Identified as duplicate''\<rparr>],
          uniqueTasks = [demoTask ''Send follow-up email''], totalDuplicates = 2\<rparr>"
  by code_simp

text \<open>
  Claim C4, as amended. Once the request is sent, \<open>deduplicateTasks\<close> accepts every response
  whose duplicates field is a list without \<open>null\<close> entries, whatever indices it names, and
  every DuplicateMatch in the duplicates list it returns carries the \<open>taskIndex\<close> and the
  \<open>duplicateOfIndex\<close> of the entry at the same position of that list. Hence in the returned
  list every non-null \<open>duplicateOfIndex\<close> is strictly lower than its \<open>taskIndex\<close> exactly
  when this holds of the list in the response, and the returned list is free of chains
  exactly when the list in the response is.
\<close>

theorem deduplicateTasks_copies_entries:
  "(fst (deduplicateTasks parse reply w batch) = Inr r \<and> duplicates r \<noteq> [] \<longrightarrow>
      indexPairs (duplicates r) = entryPairs (replyDuplicates parse reply))
   \<and> (batch \<noteq> [] \<and> clientAvailable w \<and> findPotentialDuplicates (withIndex batch) \<noteq> []
        \<and> JNull \<notin> set (replyDuplicates parse reply) \<longrightarrow>
       (\<exists>r'. fst (deduplicateTasks parse reply w batch) = Inr r'
             \<and> indexPairs (duplicates r') = entryPairs (replyDuplicates parse reply)
             \<and> pointsLower (indexPairs (duplicates r'))
               = pointsLower (entryPairs (replyDuplicates parse reply))
             \<and> chainFree (indexPairs (duplicates r'))
               = chainFree (entryPairs (replyDuplicates parse reply))))"
proof (intro conjI impI)
  assume "fst (deduplicateTasks parse reply w batch) = Inr r \<and> duplicates r \<noteq> []"
  then have run: "fst (deduplicateTasks parse reply w batch) = Inr r" and ne: "duplicates r \<noteq> []"
    by simp_all
  from deduplicateTasks_Inr [OF run] ne
  obtain content entries dupl where "reply = Message content"
    "replyDuplicates parse (Message content) = entries" "mapDuplicates entries = Inr dupl"
    "duplicates r = dupl"
    by (auto simp: noDuplicates_def)
  with mapDuplicates_pairs [of entries dupl]
  show "indexPairs (duplicates r) = entryPairs (replyDuplicates parse reply)"
    by simp
next
  assume "batch \<noteq> [] \<and> clientAvailable w \<and> findPotentialDuplicates (withIndex batch) \<noteq> []
        \<and> JNull \<notin> set (replyDuplicates parse reply)"
  then have "\<exists>r'. fst (deduplicateTasks parse reply w batch) = Inr r'
             \<and> indexPairs (duplicates r') = entryPairs (replyDuplicates parse reply)"
    using deduplicateTasks_forward [of batch w parse reply] by simp
  then obtain r' where "fst (deduplicateTasks parse reply w batch) = Inr r'"
    and "indexPairs (duplicates r') = entryPairs (replyDuplicates parse reply)"
    by blast
  then show "\<exists>r'. fst (deduplicateTasks parse reply w batch) = Inr r'
             \<and> indexPairs (duplicates r') = entryPairs (replyDuplicates parse reply)
             \<and> pointsLower (indexPairs (duplicates r'))
               = pointsLower (entryPairs (replyDuplicates parse reply))
             \<and> chainFree (indexPairs (duplicates r'))
               = chainFree (entryPairs (replyDuplicates parse reply))"
    by auto
qed

text \<open>The statement at the reply that marks task 2 as a duplicate of task 1 and task 1 as
  a duplicate of task 0: the chain is accepted and returned.\<close>

theorem deduplicateTasks_copies_entries_witness:
  "entryPairs (replyDuplicates sampleParse (Message [TextBlock chainedText]))
     = [(Some (JNum 2), Some (JNum 1)), (Some (JNum 1), Some (JNum 0))]
   \<and> \<not> chainFree (entryPairs (replyDuplicates sampleParse (Message [TextBlock chainedText])))"
proof -
  have ne: "threeFollowUps \<noteq> []"
    by (simp add: threeFollowUps_def)
  have avail: "clientAvailable freshWorld"
    by (simp add: clientAvailable_def freshWorld_def)
  have pairs: "findPotentialDuplicates (withIndex threeFollowUps) \<noteq> []"
    by code_simp
  have nonull: "JNull \<notin> set (replyDuplicates sampleParse (Message [TextBlock chainedText]))"
    by code_simp
  from deduplicateTasks_copies_entries
         [of sampleParse "Message [TextBlock chainedText]" freshWorld threeFollowUps]
       ne avail pairs nonull
  obtain r' where
    "fst (deduplicateTasks sampleParse (Message [TextBlock chainedText]) freshWorld threeFollowUps)
     = Inr r'"
    and eq: "indexPairs (duplicates r')
             = entryPairs (replyDuplicates sampleParse (Message [TextBlock chainedText]))"
    by blast
  with chained_run have
    "entryPairs (replyDuplicates sampleParse (Message [TextBlock chainedText]))
     = [(Some (JNum 2), Some (JNum 1)), (Some (JNum 1), Some (JNum 0))]"
    by (auto simp: indexPairs_def)
  then show ?thesis by (simp add: chainFree_def)
qed

text \<open>Claim C4 as stated fails in both halves. A reply that marks task 0 as a duplicate of
  task 1 is accepted and returned as it is: the \<open>duplicateOfIndex\<close> is not lower than the
  \<open>taskIndex\<close>. A reply that marks task 2 as a duplicate of task 1 and task 1 as a duplicate
  of task 0 is accepted and returned as it is: task 1 is named as an original and is itself
  listed as a duplicate.\<close>

theorem deduplicateTasks_order_counterexample:
  "fst (deduplicateTasks sampleParse (Message [TextBlock reversedText]) freshWorld followUps)
   = Inr \<lparr>duplicates = [\<lparr>taskIndex = Some (JNum 0), duplicateOfIndex = Some (JNum 1),
                          reason = JStr ''same follow-up''\<rparr>],
          uniqueTasks = [demoTask ''Send follow-up email''], totalDuplicates = 1\<rparr>
   \<and> \<not> pointsLower (indexPairs [\<lparr>taskIndex = Some (JNum 0), duplicateOfIndex = Some (JNum 1),
                                   reason = JStr ''same follow-up''\<rparr>])
   \<and> fst (deduplicateTasks sampleParse (Message [TextBlock chainedText]) freshWorld
            threeFollowUps)
     = Inr \<lparr>duplicates =
              [\<lparr>taskIndex = Some (JNum 2), duplicateOfIndex = Some (JNum 1),
                reason = JStr ''Identified as duplicate''\<rparr>,
               \<lparr>taskIndex = Some (JNum 1), duplicateOfIndex = Some (JNum 0),
                reason = JStr ''Identified as duplicate''\<rparr>],
            uniqueTasks = [demoTask ''Send follow-up email''], totalDuplicates = 2\<rparr>
   \<and> \<not> chainFree (indexPairs
          [\<lparr>taskIndex = Some (JNum 2), duplicateOfIndex = Some (JNum 1),
            reason = JStr ''Identified as duplicate''\<rparr>,
           \<lparr>taskIndex = Some (JNum 1), duplicateOfIndex = Some (JNum 0),
            reason = JStr ''Identified as duplicate''\<rparr>])"
proof -
  have "\<not> pointsLower (indexPairs [\<lparr>taskIndex = Some (JNum 0), duplicateOfIndex = Some (JNum 1),
                                   reason = JStr ''same follow-up''\<rparr>])"
    by (simp add: pointsLower_def indexPairs_def)
  moreover have "\<not> chainFree (indexPairs
          [\<lparr>taskIndex = Some (JNum 2), duplicateOfIndex = Some (JNum 1),
            reason = JStr ''Identified as duplicate''\<rparr>,
           \<lparr>taskIndex = Some (JNum 1), duplicateOfIndex = Some (JNum 0),
            reason = JStr ''Identified as duplicate''\<rparr>])"
    by (simp add: chainFree_def indexPairs_def)
  ultimately show ?thesis
    using reversed_run chained_run by (simp only: simp_thms)
qed

subsection \<open>mergeSimilarTasks: no task is lost\<close>

lemma contributes_mono: "contributes g out k \<Longrightarrow> set out \<subseteq> set out' \<Longrightarrow> contributes g out' k"
  by (auto simp: contributes_def split: option.splits)

lemma applyMerges_inv:
  "applyMerges gs (merged, result) = Inr (merged', result') \<Longrightarrow>
   set result \<subseteq> set result'
   \<and> (\<forall>k. has merged' k \<longrightarrow> has merged k \<or> (\<exists>g \<in> set gs. contributes g result' k))"
proof (induction gs arbitrary: merged result)
  case Nil
  then show ?case by simp
next
  case (Cons g gs)
  then have nn: "g \<noteq> JNull" by (auto split: sum.splits)
  note gp = get_prop_member [OF nn]
  show ?case
  proof (cases "truthy (member g ''mergedTask'')")
    case False
    with Cons.prems gp have "applyMerges gs (merged, result) = Inr (merged', result')"
      by simp
    from Cons.IH [OF this] show ?thesis by auto
  next
    case True
    then obtain mt where mt: "member g ''mergedTask'' = Some mt"
      by (cases "member g ''mergedTask''") simp_all
    from Cons.prems gp True obtain idxs where
      it: "iterate (if truthy (member g ''mergeIndices'') then member g ''mergeIndices''
                    else Some (JArr [])) = Inr idxs"
      and rec: "applyMerges gs (merged @ [member g ''primaryIndex''] @ map Some idxs,
                                result @ [Consolidated mt]) = Inr (merged', result')"
      by (auto simp: mt split: sum.splits)
    from it have gi: "groupIndices g = member g ''primaryIndex'' # map Some idxs"
      by (simp add: groupIndices_def)
    from Cons.IH [OF rec] have sub: "set (result @ [Consolidated mt]) \<subseteq> set result'"
      and ih: "\<forall>k. has merged' k \<longrightarrow>
                 has (merged @ [member g ''primaryIndex''] @ map Some idxs) k
                 \<or> (\<exists>g \<in> set gs. contributes g result' k)"
      by blast+
    have here: "has (groupIndices g) k \<Longrightarrow> contributes g result' k" for k
      using True mt sub by (simp add: contributes_def)
    have split: "has (merged @ [member g ''primaryIndex''] @ map Some idxs) k
                 = (has merged k \<or> has (groupIndices g) k)" for k
      by (auto simp: gi has_def)
    from sub ih here split show ?thesis by auto
  qed
qed

lemma mergeFromContent_Inr:
  assumes "mergeFromContent parse ts content = Inr out"
  shows "out = unmerged ts \<or>
         (\<exists>merged result. applyMerges (replyMerges parse (Message content)) ([], []) = Inr (merged, result)
            \<and> out = result @ unmerged (filter (\<lambda>t. \<not> has merged (index t)) ts))"
proof (cases content)
  case Nil
  with assms show ?thesis by (simp add: mergeFromContent_def)
next
  case (Cons blk rest)
  show ?thesis
  proof (cases blk)
    case OtherBlock
    with assms Cons show ?thesis by (simp add: mergeFromContent_def)
  next
    case (TextBlock body)
    show ?thesis
    proof (cases "json_match body")
      case None
      with assms Cons TextBlock show ?thesis by (simp add: mergeFromContent_def)
    next
      case matched: (Some payload)
      show ?thesis
      proof (cases "parse payload")
        case None
        with assms Cons TextBlock matched show ?thesis by (simp add: mergeFromContent_def)
      next
        case (Some parsed)
        show ?thesis
        proof (cases "get_prop parsed ''merges''")
          case (Inl e)
          with assms Cons TextBlock matched Some show ?thesis
            by (simp add: mergeFromContent_def)
        next
          case (Inr m)
          then have m: "m = member parsed ''merges''"
            using get_prop_Inr by blast
          from assms Cons TextBlock matched Some Inr obtain merges merged result where
            it: "iterate (if truthy m then m else Some (JArr [])) = Inr merges"
            and run: "applyMerges merges ([], []) = Inr (merged, result)"
            and out: "out = result @ unmerged (filter (\<lambda>t. \<not> has merged (index t)) ts)"
            by (auto simp: mergeFromContent_def split: sum.splits prod.splits)
          from it have it': "iterate (if truthy (member parsed ''merges'')
                                        then member parsed ''merges'' else Some (JArr []))
                               = Inr merges"
            unfolding m .
          from Cons TextBlock matched Some
          have "replyMerges parse (Message content) = merges"
            by (simp add: replyMerges_def it')
          with run out show ?thesis by blast
        qed
      qed
    qed
  qed
qed

lemma mergeSimilarTasks_Inr:
  assumes "fst (mergeSimilarTasks parse reply w ms) = Inr out"
  shows "out = unmerged (flattenMeetings ms) \<or>
         (\<exists>merged result. applyMerges (replyMerges parse reply) ([], []) = Inr (merged, result)
            \<and> out = result @ unmerged (filter (\<lambda>t. \<not> has merged (index t)) (flattenMeetings ms)))"
proof (cases "ms = []")
  case True
  with assms show ?thesis
    by (simp add: mergeSimilarTasks_def flattenMeetings_def unmerged_def)
next
  case False
  let ?ts = "flattenMeetings ms"
  show ?thesis
  proof (cases "length ?ts \<le> 1 \<or> findPotentialDuplicates ?ts = []")
    case True
    with assms False show ?thesis
      by (auto simp: mergeSimilarTasks_def Let_def split: if_splits)
  next
    case long: False
    show ?thesis
    proof (cases "getAnthropicClient w")
      case (Inl e)
      with assms False long show ?thesis by (simp add: mergeSimilarTasks_def Let_def)
    next
      case (Inr w1)
      show ?thesis
      proof (cases reply)
        case Rejected
        with assms False long Inr show ?thesis
          by (simp add: mergeSimilarTasks_def Let_def messages_create_def)
      next
        case (Message content)
        show ?thesis
        proof (cases "mergeFromContent parse ?ts content")
          case (Inl e)
          with assms False long Inr Message show ?thesis
            by (simp add: mergeSimilarTasks_def Let_def messages_create_def)
        next
          case res: (Inr res)
          with assms False long Inr Message have "out = res"
            by (simp add: mergeSimilarTasks_def Let_def messages_create_def)
          with mergeFromContent_Inr [OF res] Message show ?thesis by blast
        qed
      qed
    qed
  qed
qed

lemma flatten_nth:
  assumes "k < length (concat (map tasks ms))"
  shows "k < length (flattenMeetings ms)"
    and "index (flattenMeetings ms ! k) = k"
    and "plainTask (flattenMeetings ms ! k) = concat (map tasks ms) ! k"
proof -
  let ?xs = "concat (map (\<lambda>meeting. map (\<lambda>t. (t, meetingTitle meeting)) (tasks meeting)) ms)"
  have "map fst ?xs = concat (map tasks ms)"
    by (induction ms) (simp_all add: comp_def)
  have mf: "map fst ?xs = concat (map tasks ms)"
    by (induction ms) (simp_all add: comp_def)
  have len: "length ?xs = length (concat (map tasks ms))"
    using arg_cong [OF mf, of length] by simp
  have nth: "fst (?xs ! k) = concat (map tasks ms) ! k"
    using arg_cong [OF mf, of "\<lambda>l. l ! k"] assms len by simp
  from len assms show "k < length (flattenMeetings ms)"
    by (simp add: flattenMeetings_def)
  from len assms show "index (flattenMeetings ms ! k) = k"
    by (simp add: flattenMeetings_def nth_enumerate_eq case_prod_unfold)
  from len assms nth show "plainTask (flattenMeetings ms ! k) = concat (map tasks ms) ! k"
    by (simp add: flattenMeetings_def nth_enumerate_eq case_prod_unfold plainTask_def)
qed

lemma merge_run:
  "fst (mergeSimilarTasks sampleParse (Message [TextBlock mergeText]) freshWorld twoMeetings)
   = Inr [Consolidated (JObj [(''title'', JStr ''Send the follow-up email'')]),
          Kept (demoTask ''Schedule demo call''), Kept (demoTask ''Schedule a demo call'')]"
  by code_simp

text \<open>
  Claim C10. \<open>mergeSimilarTasks\<close> drops no task silently. For every output it returns and
  every task of the flattened input, the task is an element of the output unchanged, or a
  merge group of the reply names its index, has a \<open>mergedTask\<close>, and that \<open>mergedTask\<close> is
  an element of the output. A group without \<open>mergedTask\<close> adds nothing to the merged set:
  a task named only by such groups is an element of the output.
\<close>

theorem mergeSimilarTasks_keeps_tasks:
  assumes "fst (mergeSimilarTasks parse reply w ms) = Inr out"
    and "k < length (concat (map tasks ms))"
  shows "(Kept (concat (map tasks ms) ! k) \<in> set out
          \<or> (\<exists>g \<in> set (replyMerges parse reply). contributes g out k))
       \<and> ((\<forall>g \<in> set (replyMerges parse reply).
              has (groupIndices g) k \<longrightarrow> \<not> truthy (member g ''mergedTask''))
           \<longrightarrow> Kept (concat (map tasks ms) ! k) \<in> set out)"
proof -
  let ?ts = "flattenMeetings ms"
  let ?t = "concat (map tasks ms) ! k"
  note nth = flatten_nth [OF assms(2)]
  have kept: "Kept ?t \<in> set (unmerged (filter P ?ts))" if "P (?ts ! k)" for P
  proof -
    have "?ts ! k \<in> set (filter P ?ts)" using that nth(1) by simp
    then have "Kept (plainTask (?ts ! k)) \<in> set (unmerged (filter P ?ts))"
      unfolding unmerged_def set_map by (rule imageI)
    then show ?thesis by (simp only: nth(3))
  qed
  have main: "Kept ?t \<in> set out \<or> (\<exists>g \<in> set (replyMerges parse reply). contributes g out k)"
    using mergeSimilarTasks_Inr [OF assms(1)]
  proof (elim disjE exE conjE)
    assume "out = unmerged ?ts"
    then have "out = unmerged (filter (\<lambda>t. True) ?ts)" by simp
    with kept [of "\<lambda>t. True"] show ?thesis by simp
  next
    fix merged result
    assume run: "applyMerges (replyMerges parse reply) ([], []) = Inr (merged, result)"
      and out: "out = result @ unmerged (filter (\<lambda>t. \<not> has merged (index t)) ?ts)"
    show ?thesis
    proof (cases "has merged k")
      case False
      with kept [of "\<lambda>t. \<not> has merged (index t)"] nth(2) out show ?thesis by simp
    next
      case True
      with applyMerges_inv [OF run] obtain g where
        "g \<in> set (replyMerges parse reply)" "contributes g result k"
        by (auto simp: has_def)
      moreover have "set result \<subseteq> set out" using out by simp
      ultimately show ?thesis using contributes_mono by blast
    qed
  qed
  moreover have "\<not> contributes g out k"
    if "has (groupIndices g) k \<longrightarrow> \<not> truthy (member g ''mergedTask'')" for g
    using that by (auto simp: contributes_def split: option.splits)
  ultimately show ?thesis by blast
qed

theorem mergeSimilarTasks_keeps_tasks_witness:
  "Kept (demoTask ''Schedule demo call'')
     \<in> set [Consolidated (JObj [(''title'', JStr ''Send the follow-up email'')]),
            Kept (demoTask ''Schedule demo call''), Kept (demoTask ''Schedule a demo call'')]
   \<and> contributes
        (JObj [(''primaryIndex'', JNum 0), (''mergeIndices'', JArr [JNum 2]),
               (''mergedTask'', JObj [(''title'', JStr ''Send the follow-up email'')])])
        [Consolidated (JObj [(''title'', JStr ''Send the follow-up email'')]),
         Kept (demoTask ''Schedule demo call''), Kept (demoTask ''Schedule a demo call'')] 0"
proof -
  have len: "1 < length (concat (map tasks twoMeetings))" "0 < length (concat (map tasks twoMeetings))"
    by (simp_all add: twoMeetings_def)
  have groups: "replyMerges sampleParse (Message [TextBlock mergeText])
     = [JObj [(''primaryIndex'', JNum 0), (''mergeIndices'', JArr [JNum 2]),
              (''mergedTask'', JObj [(''title'', JStr ''Send the follow-up email'')])],
        JObj [(''primaryIndex'', JNum 1), (''mergeIndices'', JArr [JNum 3])]]"
    by code_simp
  have first: "concat (map tasks twoMeetings) ! 0 = demoTask ''Send follow-up email''"
    and second: "concat (map tasks twoMeetings) ! 1 = demoTask ''Schedule demo call''"
    by (simp_all add: twoMeetings_def)
  have absent: "\<not> Kept (demoTask ''Send follow-up email'')
     \<in> set [Consolidated (JObj [(''title'', JStr ''Send the follow-up email'')]),
            Kept (demoTask ''Schedule demo call''), Kept (demoTask ''Schedule a demo call'')]"
    by (simp add: demoTask_def)
  have other: "\<not> contributes (JObj [(''primaryIndex'', JNum 1), (''mergeIndices'', JArr [JNum 3])])
        [Consolidated (JObj [(''title'', JStr ''Send the follow-up email'')]),
         Kept (demoTask ''Schedule demo call''), Kept (demoTask ''Schedule a demo call'')] 0"
    by (simp add: contributes_def member_def)
  from mergeSimilarTasks_keeps_tasks [OF merge_run len(2)] groups first absent other
  have "contributes
        (JObj [(''primaryIndex'', JNum 0), (''mergeIndices'', JArr [JNum 2]),
               (''mergedTask'', JObj [(''title'', JStr ''Send the follow-up email'')])])
        [Consolidated (JObj [(''title'', JStr ''Send the follow-up email'')]),
         Kept (demoTask ''Schedule demo call''), Kept (demoTask ''Schedule a demo call'')] 0"
    by simp
  then show ?thesis by simp
qed

end
